theory Spec2Isabelle
  imports Main "HOL-Library.AList"
begin

section \<open>Values, dictionaries and exceptions\<close>

text \<open>
  A Python \<open>dict\<close> with string keys is an association list in insertion order with
  pairwise distinct keys; \<open>d[k]\<close> is \<open>map_of d k\<close> (a missing key raises \<open>KeyError\<close>) and
  \<open>d[k] = v\<close> is \<open>AList.update k v d\<close> (an existing key keeps its position, a new key
  is appended).

  JSON-safe data is the type \<open>json\<close> (numbers are integers here). A value that may sit
  in a serialized node while \<open>from_dict\<close> works on it is a \<open>pyval\<close>: JSON-safe data,
  a class object or a \<open>Resource\<close> object.
\<close>

datatype json =
    JNull
  | JBool bool
  | JInt int
  | JStr string
  | JList "json list"
  | JDict "(string \<times> json) list"

text \<open>
  Modelled from the spec: \<open>rasa.engine.storage.resource.Resource\<close> is not among the
  sources; the spec describes it as a lightweight named handle (a string name) that
  serializes to a flat field map. It is a dataclass with the single field \<open>name\<close>.
\<close>

record Resource =
  name :: string

text \<open>A class object, as far as serialization sees it: \<open>__module__\<close> and \<open>__name__\<close>.\<close>

record pyclass =
  py_module :: string
  py_name :: string

datatype pyval =
    Json json
  | ClassObj pyclass
  | ResourceObj Resource

text \<open>
  Exceptions are values. \<open>raise X(msg) from e\<close> is the constructor applied to the
  message and the cause \<open>e\<close>. \<open>IllTyped\<close> is not a Python exception: it marks an input
  whose value is outside the annotated type of the field it is bound to (Python stores
  such a value unchecked; the typed records below have no place for it).
\<close>

datatype exn =
    KeyError string
  | ImportError
  | TypeError string
  | AttributeError string
  | ValueError string
  | GraphSchemaException string exn
  | GraphComponentException string exn
  | IllTyped string

text \<open>Truth value of an object in \<open>if resource:\<close>.\<close>

fun truthy :: "pyval \<Rightarrow> bool" where
  "truthy (Json JNull) = False"
| "truthy (Json (JBool b)) = b"
| "truthy (Json (JInt i)) = (i \<noteq> 0)"
| "truthy (Json (JStr s)) = (s \<noteq> [])"
| "truthy (Json (JList xs)) = (xs \<noteq> [])"
| "truthy (Json (JDict kvs)) = (kvs \<noteq> [])"
| "truthy (ClassObj c) = True"
| "truthy (ResourceObj r) = True"

section \<open>SchemaNode and GraphSchema\<close>

record SchemaNode =
  needs :: "(string \<times> string) list"
  uses :: pyclass
  constructor_name :: string
  fn :: string
  config :: "(string \<times> json) list"
  eager :: bool
  is_target :: bool
  is_input :: bool
  resource :: "Resource option"

record GraphSchema =
  nodes :: "(string \<times> SchemaNode) list"

type_synonym serialized_node = "(string \<times> pyval) list"
type_synonym serialized_schema = "(string \<times> serialized_node) list"

subsection \<open>as_dict\<close>

text \<open>
  \<open>dataclasses.asdict(node)\<close>: one entry per field, in declaration order; the nested
  \<open>Resource\<close> dataclass becomes the dict of its fields, everything else is copied.
\<close>

definition asdict :: "SchemaNode \<Rightarrow> serialized_node" where
  "asdict node =
     [(''needs'', Json (JDict (map (\<lambda>(k, v). (k, JStr v)) (needs node)))),
      (''uses'', ClassObj (uses node)),
      (''constructor_name'', Json (JStr (constructor_name node))),
      (''fn'', Json (JStr (fn node))),
      (''config'', Json (JDict (config node))),
      (''eager'', Json (JBool (eager node))),
      (''is_target'', Json (JBool (is_target node))),
      (''is_input'', Json (JBool (is_input node))),
      (''resource'', Json (case resource node of
                             None \<Rightarrow> JNull
                           | Some r \<Rightarrow> JDict [(''name'', JStr (name r))]))]"

text \<open>\<open>f"{node.uses.__module__}.{node.uses.__name__}"\<close>\<close>

definition dotted_path :: "pyclass \<Rightarrow> string" where
  "dotted_path c = py_module c @ ''.'' @ py_name c"

definition serializable_node :: "SchemaNode \<Rightarrow> serialized_node" where
  "serializable_node node =
     AList.update ''uses'' (Json (JStr (dotted_path (uses node)))) (asdict node)"

definition as_dict :: "GraphSchema \<Rightarrow> serialized_schema" where
  "as_dict self =
     foldl (\<lambda>serializable_graph_schema (node_name, node).
              AList.update node_name (serializable_node node) serializable_graph_schema)
           [] (nodes self)"

subsection \<open>from_dict\<close>

text \<open>
  \<open>Resource(**resource)\<close>: the argument after \<open>**\<close> must be a mapping, and its keys are
  bound to the fields of the dataclass.
\<close>

fun Resource_init :: "pyval \<Rightarrow> exn + Resource" where
  "Resource_init (Json (JDict kw)) =
     (if \<exists>k \<in> set (map fst kw). k \<noteq> ''name''
      then Inl (TypeError ''__init__() got an unexpected keyword argument'')
      else case map_of kw ''name'' of
             None \<Rightarrow> Inl (TypeError ''__init__() missing 1 required positional argument'')
           | Some (JStr n) \<Rightarrow> Inr \<lparr>name = n\<rparr>
           | Some _ \<Rightarrow> Inl (IllTyped ''name''))"
| "Resource_init _ = Inl (TypeError ''argument after ** must be a mapping'')"

text \<open>Reading a keyword argument at the annotated type of its field.\<close>

fun as_str :: "pyval \<Rightarrow> string option" where
  "as_str (Json (JStr s)) = Some s"
| "as_str _ = None"

fun as_bool :: "pyval \<Rightarrow> bool option" where
  "as_bool (Json (JBool b)) = Some b"
| "as_bool _ = None"

fun as_class :: "pyval \<Rightarrow> pyclass option" where
  "as_class (ClassObj c) = Some c"
| "as_class _ = None"

fun as_config :: "pyval \<Rightarrow> (string \<times> json) list option" where
  "as_config (Json (JDict kvs)) = Some kvs"
| "as_config _ = None"

fun as_needs_item :: "string \<times> json \<Rightarrow> (string \<times> string) option" where
  "as_needs_item (k, JStr v) = Some (k, v)"
| "as_needs_item _ = None"

fun as_needs :: "pyval \<Rightarrow> (string \<times> string) list option" where
  "as_needs (Json (JDict kvs)) = those (map as_needs_item kvs)"
| "as_needs _ = None"

fun as_resource :: "pyval \<Rightarrow> Resource option option" where
  "as_resource (Json JNull) = Some None"
| "as_resource (ResourceObj r) = Some (Some r)"
| "as_resource _ = None"

definition SchemaNode_fields :: "string list" where
  "SchemaNode_fields =
     [''needs'', ''uses'', ''constructor_name'', ''fn'', ''config'',
      ''eager'', ''is_target'', ''is_input'', ''resource'']"

definition SchemaNode_required :: "string list" where
  "SchemaNode_required = [''needs'', ''uses'', ''constructor_name'', ''fn'', ''config'']"

definition with_default :: "'a \<Rightarrow> (pyval \<Rightarrow> 'a option) \<Rightarrow> pyval option \<Rightarrow> 'a option" where
  "with_default d f v = (case v of None \<Rightarrow> Some d | Some x \<Rightarrow> f x)"

definition typed_fields :: "serialized_node \<Rightarrow> SchemaNode option" where
  "typed_fields kw =
     Option.bind (Option.bind (map_of kw ''needs'') as_needs) (\<lambda>n.
     Option.bind (Option.bind (map_of kw ''uses'') as_class) (\<lambda>u.
     Option.bind (Option.bind (map_of kw ''constructor_name'') as_str) (\<lambda>c.
     Option.bind (Option.bind (map_of kw ''fn'') as_str) (\<lambda>f.
     Option.bind (Option.bind (map_of kw ''config'') as_config) (\<lambda>cfg.
     Option.bind (with_default False as_bool (map_of kw ''eager'')) (\<lambda>e.
     Option.bind (with_default False as_bool (map_of kw ''is_target'')) (\<lambda>t.
     Option.bind (with_default False as_bool (map_of kw ''is_input'')) (\<lambda>i.
     Option.bind (with_default None as_resource (map_of kw ''resource'')) (\<lambda>r.
       Some \<lparr>needs = n, uses = u, constructor_name = c, fn = f, config = cfg,
             eager = e, is_target = t, is_input = i, resource = r\<rparr>)))))))))"

text \<open>
  \<open>SchemaNode(**serialized_node)\<close>, the constructor the dataclass generates: a keyword
  that is not a field and a missing field without default are a \<open>TypeError\<close>; \<open>eager\<close>,
  \<open>is_target\<close>, \<open>is_input\<close> default to \<open>False\<close> and \<open>resource\<close> to \<open>None\<close>.
\<close>

definition SchemaNode_init :: "serialized_node \<Rightarrow> exn + SchemaNode" where
  "SchemaNode_init kw =
     (if \<exists>k \<in> set (map fst kw). k \<notin> set SchemaNode_fields
      then Inl (TypeError ''__init__() got an unexpected keyword argument'')
      else if \<exists>k \<in> set SchemaNode_required. map_of kw k = None
      then Inl (TypeError ''__init__() missing required positional arguments'')
      else case typed_fields kw of
             None \<Rightarrow> Inl (IllTyped ''SchemaNode'')
           | Some node \<Rightarrow> Inr node)"

definition deserialization_message :: "string \<Rightarrow> string" where
  "deserialization_message path =
     ''Error deserializing graph schema. Can't find class for graph component type ''
     @ [CHR 0x27] @ path @ [CHR 0x27] @ ''.''"

text \<open>
  Modelled from the spec: \<open>rasa.shared.utils.common.class_from_module_path\<close> is not
  among the sources. It resolves a dotted path to a class object or raises
  \<open>ImportError\<close>; it is the parameter \<open>class_from_module_path\<close>, with \<open>None\<close> for the
  \<open>ImportError\<close>.

  The body of the loop of \<open>from_dict\<close> for one node. The serialized node is changed in
  place, so its state after the body is returned together with the outcome.
\<close>

definition from_dict_node ::
  "(string \<Rightarrow> pyclass option) \<Rightarrow> serialized_node \<Rightarrow> serialized_node \<times> (exn + SchemaNode)" where
  "from_dict_node class_from_module_path serialized_node =
     (case map_of serialized_node ''uses'' of
        None \<Rightarrow> (serialized_node, Inl (KeyError ''uses''))
      | Some (Json (JStr path)) \<Rightarrow>
          (case class_from_module_path path of
             None \<Rightarrow>
               (serialized_node,
                Inl (GraphSchemaException (deserialization_message path) ImportError))
           | Some c \<Rightarrow>
               (let d1 = AList.update ''uses'' (ClassObj c) serialized_node in
                case map_of d1 ''resource'' of
                  None \<Rightarrow> (d1, Inl (KeyError ''resource''))
                | Some r \<Rightarrow>
                    if truthy r
                    then (case Resource_init r of
                            Inl e \<Rightarrow> (d1, Inl e)
                          | Inr res \<Rightarrow>
                              (let d2 = AList.update ''resource'' (ResourceObj res) d1
                               in (d2, SchemaNode_init d2)))
                    else (d1, SchemaNode_init d1)))
      | Some _ \<Rightarrow> (serialized_node, Inl (IllTyped ''uses'')))"

text \<open>
  The loop over \<open>serialized_graph_schema.items()\<close>, with the dict \<open>nodes\<close> built so far (\<open>nodes'\<close>).
  An exception leaves the loop at once; the entries not yet reached stay as they were.
\<close>

fun from_dict_loop ::
  "(string \<Rightarrow> pyclass option) \<Rightarrow> serialized_schema \<Rightarrow> (string \<times> SchemaNode) list
     \<Rightarrow> serialized_schema \<times> (exn + (string \<times> SchemaNode) list)" where
  "from_dict_loop class_from_module_path [] nodes' = ([], Inr nodes')"
| "from_dict_loop class_from_module_path ((node_name, serialized_node) # rest) nodes' =
     (case from_dict_node class_from_module_path serialized_node of
        (d, Inl e) \<Rightarrow> ((node_name, d) # rest, Inl e)
      | (d, Inr node) \<Rightarrow>
          (case from_dict_loop class_from_module_path rest
                  (AList.update node_name node nodes') of
             (rest', r) \<Rightarrow> ((node_name, d) # rest', r)))"

definition from_dict ::
  "(string \<Rightarrow> pyclass option) \<Rightarrow> serialized_schema \<Rightarrow> serialized_schema \<times> (exn + GraphSchema)" where
  "from_dict class_from_module_path serialized_graph_schema =
     (case from_dict_loop class_from_module_path serialized_graph_schema [] of
        (d, Inl e) \<Rightarrow> (d, Inl e)
      | (d, Inr nodes') \<Rightarrow> (d, Inr \<lparr>nodes = nodes'\<rparr>))"

subsection \<open>Predicates on serialized schemas\<close>

text \<open>
  \<open>replaced_in_place\<close> relates a serialized node before and after the loop body of
  \<open>from_dict\<close> has run on it without raising: the value under \<open>uses\<close> is the class
  object its path resolves to, a truthy value under \<open>resource\<close> is the \<open>Resource\<close>
  built from it, and every other entry is as before.
\<close>

definition replaced_in_place ::
  "(string \<Rightarrow> pyclass option) \<Rightarrow> serialized_node \<Rightarrow> serialized_node \<Rightarrow> bool" where
  "replaced_in_place class_from_module_path d d' =
     (case map_of d ''uses'' of
        Some (Json (JStr path)) \<Rightarrow>
          (case class_from_module_path path of
             None \<Rightarrow> False
           | Some c \<Rightarrow>
               (case map_of d ''resource'' of
                  None \<Rightarrow> False
                | Some r \<Rightarrow>
                    if truthy r
                    then (case Resource_init r of
                            Inl e \<Rightarrow> False
                          | Inr res \<Rightarrow>
                              d' = AList.update ''resource'' (ResourceObj res)
                                     (AList.update ''uses'' (ClassObj c) d))
                    else d' = AList.update ''uses'' (ClassObj c) d))
      | _ \<Rightarrow> False)"

fun is_json :: "pyval \<Rightarrow> bool" where
  "is_json (Json j) = True"
| "is_json _ = False"

definition json_safe :: "serialized_schema \<Rightarrow> bool" where
  "json_safe d = list_all (\<lambda>(node_name, sn). list_all (\<lambda>(k, v). is_json v) sn) d"

text \<open>The loop body returns a node for this entry (it raises nothing).\<close>

definition node_loads :: "(string \<Rightarrow> pyclass option) \<Rightarrow> serialized_node \<Rightarrow> bool" where
  "node_loads class_from_module_path serialized_node =
     (case snd (from_dict_node class_from_module_path serialized_node) of
        Inl e \<Rightarrow> False | Inr node \<Rightarrow> True)"

section \<open>Example data\<close>

definition example_class :: pyclass where
  "example_class = \<lparr>py_module = ''pkg.components'', py_name = ''Tokenizer''\<rparr>"

definition example_import :: "string \<Rightarrow> pyclass option" where
  "example_import path =
     (if path = ''pkg.components.Tokenizer'' then Some example_class else None)"

definition example_parent :: SchemaNode where
  "example_parent =
     \<lparr>needs = [], uses = example_class, constructor_name = ''create'', fn = ''provide'',
      config = [], eager = True, is_target = False, is_input = True, resource = None\<rparr>"

definition example_child :: SchemaNode where
  "example_child =
     \<lparr>needs = [(''x'', ''parent'')], uses = example_class, constructor_name = ''load'',
      fn = ''run'', config = [(''k'', JInt 1)], eager = False, is_target = True,
      is_input = False, resource = Some \<lparr>name = ''trained''\<rparr>\<rparr>"

definition example_schema :: GraphSchema where
  "example_schema = \<lparr>nodes = [(''parent'', example_parent), (''child'', example_child)]\<rparr>"

section \<open>Pruning a schema to its targets\<close>

text \<open>\<open>[node_name for node_name, node in self.nodes.items() if node.is_target]\<close>\<close>

definition target_names :: "GraphSchema \<Rightarrow> string list" where
  "target_names self = map fst (filter (\<lambda>(node_name, node). is_target node) (nodes self))"

text \<open>
  \<open>_all_dependencies_schema\<close> calls itself once for every dependency of every target,
  and on a cyclic schema it never returns. The first argument bounds the depth of the
  nested calls; \<open>None\<close> is the call that does not return within that depth. The two
  loops of the body are \<open>targets_loop\<close> (over \<open>targets\<close>) and \<open>dependencies_loop\<close> (over
  \<open>self.nodes[target].needs.values()\<close>), each with the list \<open>required\<close> built so far;
  \<open>self.nodes[target]\<close> raises \<open>KeyError\<close> for a name that is not a node.
\<close>

fun all_dependencies_schema :: "nat \<Rightarrow> GraphSchema \<Rightarrow> string list \<Rightarrow> (exn + string list) option"
  and targets_loop ::
    "nat \<Rightarrow> GraphSchema \<Rightarrow> string list \<Rightarrow> string list \<Rightarrow> (exn + string list) option"
  and dependencies_loop ::
    "nat \<Rightarrow> GraphSchema \<Rightarrow> string list \<Rightarrow> string list \<Rightarrow> (exn + string list) option"
where
  "all_dependencies_schema 0 self targets = None"
| "all_dependencies_schema (Suc depth) self targets = targets_loop depth self targets []"
| "targets_loop depth self [] required = Some (Inr required)"
| "targets_loop depth self (target # targets) required =
     (case map_of (nodes self) target of
        None \<Rightarrow> Some (Inl (KeyError target))
      | Some node \<Rightarrow>
          (case dependencies_loop depth self (map snd (needs node)) (required @ [target]) of
             None \<Rightarrow> None
           | Some (Inl e) \<Rightarrow> Some (Inl e)
           | Some (Inr required') \<Rightarrow> targets_loop depth self targets required'))"
| "dependencies_loop depth self [] required = Some (Inr required)"
| "dependencies_loop depth self (dependency # dependencies) required =
     (case all_dependencies_schema depth self [dependency] of
        None \<Rightarrow> None
      | Some (Inl e) \<Rightarrow> Some (Inl e)
      | Some (Inr r) \<Rightarrow> dependencies_loop depth self dependencies (required @ r))"

text \<open>
  The dict comprehension of \<open>minimal_graph_schema\<close> keeps the entries of \<open>self.nodes\<close>
  whose name occurs in the list of dependencies, in their order.
\<close>

definition minimal_graph_schema :: "nat \<Rightarrow> GraphSchema \<Rightarrow> (exn + GraphSchema) option" where
  "minimal_graph_schema depth self =
     (case all_dependencies_schema depth self (target_names self) of
        None \<Rightarrow> None
      | Some (Inl e) \<Rightarrow> Some (Inl e)
      | Some (Inr dependencies) \<Rightarrow>
          Some (Inr \<lparr>nodes = filter (\<lambda>(node_name, node). node_name \<in> set dependencies)
                                (nodes self)\<rparr>))"

text \<open>
  The \<open>needs\<close> graph of a schema: an edge from a node to each value of its \<open>needs\<close>;
  and the nodes reachable from the targets along these edges.
\<close>

definition needs_rel :: "GraphSchema \<Rightarrow> (string \<times> string) set" where
  "needs_rel s = {(n, d). \<exists>node. map_of (nodes s) n = Some node \<and> d \<in> snd ` set (needs node)}"

definition reachable :: "GraphSchema \<Rightarrow> string set" where
  "reachable s = (needs_rel s)\<^sup>* `` set (target_names s)"


text \<open>
  A diamond: the target \<open>T\<close> needs \<open>A\<close> and \<open>B\<close>, both need \<open>C\<close>; \<open>D\<close> needs \<open>T\<close> and is
  needed by nobody.
\<close>

definition diamond_node :: "(string \<times> string) list \<Rightarrow> bool \<Rightarrow> SchemaNode" where
  "diamond_node ns target =
     \<lparr>needs = ns, uses = example_class, constructor_name = ''create'', fn = ''run'',
      config = [], eager = False, is_target = target, is_input = False, resource = None\<rparr>"

definition example_diamond :: GraphSchema where
  "example_diamond =
     \<lparr>nodes = [(''C'', diamond_node [] False),
               (''D'', diamond_node [(''t'', ''T'')] False),
               (''A'', diamond_node [(''c'', ''C'')] False),
               (''B'', diamond_node [(''c'', ''C'')] False),
               (''T'', diamond_node [(''a'', ''A''), (''b'', ''B'')] True)]\<rparr>"

definition example_rank :: "string \<Rightarrow> nat" where
  "example_rank n =
     (if n = ''D'' then 3 else if n = ''T'' then 2 else if n = ''A'' \<or> n = ''B'' then 1 else 0)"

text \<open>The schema restricted to the node names in a set.\<close>

definition prune :: "string set \<Rightarrow> GraphSchema \<Rightarrow> GraphSchema" where
  "prune S self = \<lparr>nodes = filter (\<lambda>(node_name, node). node_name \<in> S) (nodes self)\<rparr>"

section \<open>GraphNode\<close>

type_synonym kwargs = "(string \<times> pyval) list"

record ExecutionContext =
  graph_schema :: GraphSchema
  model_id :: "string option"
  should_add_diagnostic_data :: bool
  is_finetuning :: bool

text \<open>
  A hook, by its two callbacks. Both are handed the node name (a string), and the
  node's own execution context and config dict, not copies. \<open>on_before_node\<close> is
  handed, as \<open>received_inputs\<close>, the very dict \<open>kwargs\<close> that \<open>__call__\<close> goes on to use;
  \<open>on_after_node\<close> is handed the output that \<open>__call__\<close> goes on to return, and the dict
  the hook returned before. What a hook does to these objects counts, so a callback
  yields the context, the config and the inputs (or the output) as it leaves them,
  and what it returns or the exception it raises.
\<close>

record GraphNodeHook =
  on_before_node ::
    "string \<Rightarrow> ExecutionContext \<Rightarrow> (string \<times> json) list \<Rightarrow> kwargs
       \<Rightarrow> (ExecutionContext \<times> (string \<times> json) list \<times> kwargs)
           \<times> (exn + (string \<times> json) list)"
  on_after_node ::
    "string \<Rightarrow> ExecutionContext \<Rightarrow> (string \<times> json) list \<Rightarrow> pyval
       \<Rightarrow> (string \<times> json) list
       \<Rightarrow> (ExecutionContext \<times> (string \<times> json) list \<times> pyval) \<times> (exn + unit)"

text \<open>
  The keyword arguments of one call of a component's constructor
  (\<open>constructor(config=..., model_storage=..., resource=..., execution_context=...,
  **kwargs)\<close>).
\<close>

record 'ms constructor_call =
  arg_config :: "(string \<times> json) list"
  arg_model_storage :: 'ms
  arg_resource :: pyval
  arg_execution_context :: ExecutionContext
  arg_kwargs :: kwargs

text \<open>
  A component class, as far as a \<open>GraphNode\<close> uses it. \<open>'c\<close> is the type of its
  instances and \<open>'ms\<close> the model storage. \<open>getattr(component_class, name)\<close> is
  \<open>constructors\<close> for a factory (the names of the parameters in its signature and what
  a call does) and \<open>methods\<close> for a method run on an instance, which may change the
  instance: it returns the instance after the call and the outcome. \<open>None\<close> is the
  \<open>AttributeError\<close>.
\<close>

record ('c, 'ms) component_class =
  get_default_config :: "(string \<times> json) list"
  constructors :: "string \<Rightarrow> (string list \<times> ('ms constructor_call \<Rightarrow> exn + 'c)) option"
  methods :: "string \<Rightarrow> ('c \<Rightarrow> kwargs \<Rightarrow> 'c \<times> (exn + pyval)) option"

text \<open>
  What a node does to its component, in order: a call of the constructor with its
  arguments, a call of the run function with its keyword arguments. The field \<open>trace\<close>
  of a node records them; it is not an attribute of the Python object.
\<close>

datatype 'ms event =
    Instantiated "'ms constructor_call"
  | Ran kwargs

record ('c, 'ms) GraphNode =
  self_node_name :: string
  self_component_class :: "('c, 'ms) component_class"
  self_constructor_name :: string
  self_constructor_fn :: "string list \<times> ('ms constructor_call \<Rightarrow> exn + 'c)"
  self_component_config :: "(string \<times> json) list"
  self_fn_name :: string
  self_fn :: "'c \<Rightarrow> kwargs \<Rightarrow> 'c \<times> (exn + pyval)"
  self_inputs :: "(string \<times> string) list"
  self_eager :: bool
  self_model_storage :: 'ms
  self_existing_resource :: "Resource option"
  self_execution_context :: ExecutionContext
  self_hooks :: "GraphNodeHook list"
  self_component :: "'c option"
  trace :: "'ms event list"

text \<open>\<open>dict(pairs)\<close> and \<open>{**a, **b}\<close>: later entries replace earlier ones.\<close>

definition dict_of :: "(string \<times> 'v) list \<Rightarrow> (string \<times> 'v) list" where
  "dict_of pairs = foldl (\<lambda>d (k, v). AList.update k v d) [] pairs"

definition merge_dicts :: "(string \<times> 'v) list \<Rightarrow> (string \<times> 'v) list \<Rightarrow> (string \<times> 'v) list" where
  "merge_dicts a b = foldl (\<lambda>d (k, v). AList.update k v d) (dict_of a) b"

definition initializing_message :: "string \<Rightarrow> string" where
  "initializing_message node_name =
     ''Error initializing graph component for node '' @ node_name @ ''.''"

definition running_message :: "string \<Rightarrow> string" where
  "running_message node_name = ''Error running graph component for node '' @ node_name @ ''.''"

definition before_hook_message :: "string \<Rightarrow> string" where
  "before_hook_message node_name = ''Error running before hook for node '' @ node_name @ ''.''"

definition after_hook_message :: "string \<Rightarrow> string" where
  "after_hook_message node_name = ''Error running after hook for node '' @ node_name @ ''.''"

text \<open>
  \<open>_get_resource\<close> returns the resource and, since \<open>kwargs.pop\<close> changes the dict it is
  given, the keyword arguments left. A \<open>Resource\<close> object is always truthy.
\<close>

definition get_resource :: "('c, 'ms) GraphNode \<Rightarrow> kwargs \<Rightarrow> pyval \<times> kwargs" where
  "get_resource self kwargs =
     (case map_of kwargs ''resource'' of
        Some r \<Rightarrow> (r, AList.delete ''resource'' kwargs)
      | None \<Rightarrow>
          (case self_existing_resource self of
             Some r \<Rightarrow> (ResourceObj r, kwargs)
           | None \<Rightarrow> (ResourceObj \<lparr>name = self_node_name self\<rparr>, kwargs)))"

definition fixed_arguments :: "string list" where
  "fixed_arguments = [''config'', ''model_storage'', ''resource'', ''execution_context'']"

text \<open>
  \<open>_load_component\<close>. The constructor is looked up outside the \<open>try\<close>. Inside it, a name
  that is passed both as one of the four fixed keyword arguments and in \<open>**kwargs\<close> is
  a \<open>TypeError\<close> of the call itself (the constructor is not entered); every exception
  is wrapped in a \<open>GraphComponentException\<close>.
\<close>

definition constructor_arguments :: "('c, 'ms) GraphNode \<Rightarrow> kwargs \<Rightarrow> 'ms constructor_call" where
  "constructor_arguments self kwargs =
     (case get_resource self kwargs of
        (resource', kwargs') \<Rightarrow>
          \<lparr>arg_config = self_component_config self,
           arg_model_storage = self_model_storage self,
           arg_resource = resource',
           arg_execution_context = self_execution_context self,
           arg_kwargs = kwargs'\<rparr>)"

definition load_component ::
  "('c, 'ms) GraphNode \<Rightarrow> kwargs \<Rightarrow> ('c, 'ms) GraphNode \<times> (exn + unit)" where
  "load_component self kwargs =
     (case constructors (self_component_class self) (self_constructor_name self) of
        None \<Rightarrow> (self, Inl (AttributeError (self_constructor_name self)))
      | Some (params, constructor) \<Rightarrow>
          (let args = constructor_arguments self kwargs in
           if \<exists>k \<in> set (map fst (arg_kwargs args)). k \<in> set fixed_arguments
           then (self,
                 Inl (GraphComponentException (initializing_message (self_node_name self))
                        (TypeError ''got multiple values for keyword argument'')))
           else
             (let self1 = self\<lparr>trace := trace self @ [Instantiated args]\<rparr>
              in case constructor args of
                   Inl e \<Rightarrow>
                     (self1,
                      Inl (GraphComponentException
                             (initializing_message (self_node_name self)) e))
                 | Inr component \<Rightarrow> (self1\<lparr>self_component := Some component\<rparr>, Inr ()))))"

text \<open>\<open>__init__\<close>; an exception leaves no node.\<close>

definition GraphNode_init ::
  "string \<Rightarrow> ('c, 'ms) component_class \<Rightarrow> string \<Rightarrow> (string \<times> json) list \<Rightarrow> string
     \<Rightarrow> (string \<times> string) list \<Rightarrow> bool \<Rightarrow> 'ms \<Rightarrow> Resource option \<Rightarrow> ExecutionContext
     \<Rightarrow> GraphNodeHook list option \<Rightarrow> exn + ('c, 'ms) GraphNode" where
  "GraphNode_init node_name component_class constructor_name' component_config fn_name inputs
     eager' model_storage resource' execution_context hooks =
     (case constructors component_class constructor_name' of
        None \<Rightarrow> Inl (AttributeError constructor_name')
      | Some constructor_fn \<Rightarrow>
          (case methods component_class fn_name of
             None \<Rightarrow> Inl (AttributeError fn_name)
           | Some fn' \<Rightarrow>
               (let self =
                      \<lparr>self_node_name = node_name,
                       self_component_class = component_class,
                       self_constructor_name = constructor_name',
                       self_constructor_fn = constructor_fn,
                       self_component_config =
                         merge_dicts (get_default_config component_class) component_config,
                       self_fn_name = fn_name,
                       self_fn = fn',
                       self_inputs = inputs,
                       self_eager = eager',
                       self_model_storage = model_storage,
                       self_existing_resource = resource',
                       self_execution_context = execution_context,
                       self_hooks = (case hooks of None \<Rightarrow> [] | Some hs \<Rightarrow> hs),
                       self_component = None,
                       trace = []\<rparr>
                in if eager'
                   then (case load_component self [] of
                           (self', Inl e) \<Rightarrow> Inl e
                         | (self', Inr u) \<Rightarrow> Inr self')
                   else Inr self)))"

text \<open>
  The loop \<open>kwargs[input_name] = received_inputs[input_node]\<close> over
  \<open>self._inputs.items()\<close>, with the \<open>kwargs\<close> built so far.
\<close>

fun collect_kwargs :: "(string \<times> string) list \<Rightarrow> kwargs \<Rightarrow> kwargs \<Rightarrow> exn + kwargs" where
  "collect_kwargs [] received_inputs kwargs = Inr kwargs"
| "collect_kwargs ((input_name, input_node) # rest) received_inputs kwargs =
     (case map_of received_inputs input_node of
        None \<Rightarrow> Inl (KeyError input_node)
      | Some v \<Rightarrow> collect_kwargs rest received_inputs (AList.update input_name v kwargs))"

text \<open>The node whose execution context and config are as a hook left them.\<close>

definition hook_left ::
  "('c, 'ms) GraphNode \<Rightarrow> ExecutionContext \<Rightarrow> (string \<times> json) list \<Rightarrow> ('c, 'ms) GraphNode" where
  "hook_left self execution_context config' =
     self\<lparr>self_component_config := config', self_execution_context := execution_context\<rparr>"

text \<open>
  \<open>_run_before_hooks\<close>: every hook is handed the same objects, so each sees them as the
  hooks before it left them; the result carries the node and the dict as the last
  hook run left them.
\<close>

fun before_hooks_loop ::
  "('c, 'ms) GraphNode \<Rightarrow> kwargs \<Rightarrow> GraphNodeHook list \<Rightarrow> (string \<times> json) list list
     \<Rightarrow> ('c, 'ms) GraphNode \<times> kwargs \<times> (exn + (string \<times> json) list list)" where
  "before_hooks_loop self received_inputs [] input_hook_outputs =
     (self, received_inputs, Inr input_hook_outputs)"
| "before_hooks_loop self received_inputs (hook # hooks) input_hook_outputs =
     (case on_before_node hook (self_node_name self) (self_execution_context self)
             (self_component_config self) received_inputs of
        ((execution_context, config', received_inputs'), Inl e) \<Rightarrow>
          (hook_left self execution_context config', received_inputs',
           Inl (GraphComponentException (before_hook_message (self_node_name self)) e))
      | ((execution_context, config', received_inputs'), Inr hook_output) \<Rightarrow>
          before_hooks_loop (hook_left self execution_context config') received_inputs' hooks
            (input_hook_outputs @ [hook_output]))"

definition run_before_hooks ::
  "('c, 'ms) GraphNode \<Rightarrow> kwargs
     \<Rightarrow> ('c, 'ms) GraphNode \<times> kwargs \<times> (exn + (string \<times> json) list list)" where
  "run_before_hooks self received_inputs =
     before_hooks_loop self received_inputs (self_hooks self) []"

text \<open>
  \<open>_run_after_hooks\<close>: the result carries the node and the output as the last hook run
  left them.
\<close>

fun after_hooks_loop ::
  "('c, 'ms) GraphNode \<Rightarrow> (GraphNodeHook \<times> (string \<times> json) list) list \<Rightarrow> pyval
     \<Rightarrow> ('c, 'ms) GraphNode \<times> pyval \<times> (exn + unit)" where
  "after_hooks_loop self [] output = (self, output, Inr ())"
| "after_hooks_loop self ((hook, hook_data) # rest) output =
     (case on_after_node hook (self_node_name self) (self_execution_context self)
             (self_component_config self) output hook_data of
        ((execution_context, config', output'), Inl e) \<Rightarrow>
          (hook_left self execution_context config', output',
           Inl (GraphComponentException (after_hook_message (self_node_name self)) e))
      | ((execution_context, config', output'), Inr u) \<Rightarrow>
          after_hooks_loop (hook_left self execution_context config') rest output')"

definition run_after_hooks ::
  "('c, 'ms) GraphNode \<Rightarrow> (string \<times> json) list list \<Rightarrow> pyval
     \<Rightarrow> ('c, 'ms) GraphNode \<times> pyval \<times> (exn + unit)" where
  "run_after_hooks self input_hook_outputs output =
     after_hooks_loop self (zip (self_hooks self) input_hook_outputs) output"

text \<open>
  Modelled from the spec: \<open>rasa.shared.utils.common.minimal_kwargs\<close> is not among the
  sources. It keeps the inputs whose names match the parameters the function accepts.
\<close>

definition minimal_kwargs :: "kwargs \<Rightarrow> string list \<Rightarrow> kwargs" where
  "minimal_kwargs kwargs params = filter (\<lambda>(k, v). k \<in> set params) kwargs"

text \<open>
  The branch \<open>if not self._eager: ... else: ...\<close> of \<open>__call__\<close>: a lazy node loads its
  component with the inputs its constructor accepts; the result is \<open>run_kwargs\<close>.
\<close>

definition instantiate_if_lazy ::
  "('c, 'ms) GraphNode \<Rightarrow> kwargs \<Rightarrow> ('c, 'ms) GraphNode \<times> (exn + kwargs)" where
  "instantiate_if_lazy self kwargs =
     (if \<not> self_eager self
      then (let constructor_kwargs = minimal_kwargs kwargs (fst (self_constructor_fn self))
            in case load_component self constructor_kwargs of
                 (self1, Inl e) \<Rightarrow> (self1, Inl e)
               | (self1, Inr u) \<Rightarrow>
                   (self1,
                    Inr (filter (\<lambda>(k, v). k \<notin> set (map fst constructor_kwargs)) kwargs)))
      else (self, Inr kwargs))"

text \<open>
  \<open>self._fn(self._component, **run_kwargs)\<close>. A node without component is outside the
  typed model (Python would pass \<open>None\<close> as the instance).
\<close>

definition run_fn ::
  "('c, 'ms) GraphNode \<Rightarrow> kwargs \<Rightarrow> ('c, 'ms) GraphNode \<times> (exn + pyval)" where
  "run_fn self run_kwargs =
     (case self_component self of
        None \<Rightarrow> (self, Inl (IllTyped ''_component''))
      | Some component \<Rightarrow>
          (case self_fn self component run_kwargs of
             (component', r) \<Rightarrow>
               (self\<lparr>self_component := Some component',
                     trace := trace self @ [Ran run_kwargs]\<rparr>, r)))"

text \<open>
  \<open>__call__\<close>: the node after the call and what the call returns or raises. After the
  before hooks, \<open>kwargs\<close> is the dict as they left it (\<open>kwargs'\<close>); after the after hooks,
  \<open>output\<close> is the output as they left it (\<open>output'\<close>).
\<close>

definition call ::
  "('c, 'ms) GraphNode \<Rightarrow> (string \<times> pyval) list
     \<Rightarrow> ('c, 'ms) GraphNode \<times> (exn + string \<times> pyval)" where
  "call self inputs_from_previous_nodes =
     (let received_inputs = dict_of inputs_from_previous_nodes in
      case collect_kwargs (self_inputs self) received_inputs [] of
        Inl e \<Rightarrow> (self, Inl e)
      | Inr kwargs \<Rightarrow>
          (case run_before_hooks self kwargs of
             (self0, kwargs', Inl e) \<Rightarrow> (self0, Inl e)
           | (self0, kwargs', Inr input_hook_outputs) \<Rightarrow>
               (case instantiate_if_lazy self0 kwargs' of
                  (self1, Inl e) \<Rightarrow> (self1, Inl e)
                | (self1, Inr run_kwargs) \<Rightarrow>
                    (case run_fn self1 run_kwargs of
                       (self2, Inl e) \<Rightarrow>
                         (self2,
                          Inl (GraphComponentException
                                 (running_message (self_node_name self)) e))
                     | (self2, Inr output) \<Rightarrow>
                         (case run_after_hooks self2 input_hook_outputs output of
                            (self3, output', Inl e) \<Rightarrow> (self3, Inl e)
                          | (self3, output', Inr u) \<Rightarrow>
                              (self3, Inr (self_node_name self, output')))))))"

text \<open>How often the constructor has been called.\<close>

fun is_Instantiated :: "'ms event \<Rightarrow> bool" where
  "is_Instantiated (Instantiated args) = True"
| "is_Instantiated (Ran kwargs) = False"

definition instantiations :: "('c, 'ms) GraphNode \<Rightarrow> nat" where
  "instantiations self = length (filter is_Instantiated (trace self))"

definition example_context :: ExecutionContext where
  "example_context =
     \<lparr>graph_schema = \<lparr>nodes = []\<rparr>, model_id = None,
      should_add_diagnostic_data = False, is_finetuning = False\<rparr>"

text \<open>
  A component whose instance is the resource it was created with and the number of
  times it has run. \<open>create\<close> takes the four fixed arguments, \<open>load\<close> also \<open>**kwargs\<close>;
  \<open>run\<close> returns its argument \<open>x\<close>, \<open>fail\<close> raises \<open>ValueError("boom")\<close>.
\<close>

definition example_create :: "unit constructor_call \<Rightarrow> exn + pyval \<times> nat" where
  "example_create args =
     (if arg_kwargs args = [] then Inr (arg_resource args, 0)
      else Inl (TypeError ''create() got an unexpected keyword argument''))"

definition example_load :: "unit constructor_call \<Rightarrow> exn + pyval \<times> nat" where
  "example_load args = Inr (arg_resource args, 0)"

definition example_run :: "pyval \<times> nat \<Rightarrow> kwargs \<Rightarrow> (pyval \<times> nat) \<times> (exn + pyval)" where
  "example_run component kwargs =
     (case map_of kwargs ''x'' of
        None \<Rightarrow> (component, Inl (TypeError ''run() missing 1 required positional argument''))
      | Some v \<Rightarrow> ((fst component, Suc (snd component)), Inr v))"

definition example_fail :: "pyval \<times> nat \<Rightarrow> kwargs \<Rightarrow> (pyval \<times> nat) \<times> (exn + pyval)" where
  "example_fail component kwargs = (component, Inl (ValueError ''boom''))"

definition example_component :: "(pyval \<times> nat, unit) component_class" where
  "example_component =
     \<lparr>get_default_config = [(''k'', JInt 0)],
      constructors = (\<lambda>n.
        if n = ''create''
        then Some (fixed_arguments, example_create)
        else if n = ''load''
        then Some (fixed_arguments @ [''kwargs''], example_load)
        else None),
      methods = (\<lambda>n.
        if n = ''run'' then Some example_run
        else if n = ''fail'' then Some example_fail
        else None)\<rparr>"

definition example_node :: "string \<Rightarrow> string \<Rightarrow> (string \<times> string) list \<Rightarrow> bool \<Rightarrow> Resource option
    \<Rightarrow> exn + (pyval \<times> nat, unit) GraphNode" where
  "example_node constructor_name' fn_name inputs eager' resource' =
     GraphNode_init ''child'' example_component constructor_name' [(''k'', JInt 1)] fn_name
       inputs eager' () resource' example_context None"

definition example_args :: "pyval \<Rightarrow> kwargs \<Rightarrow> unit constructor_call" where
  "example_args r kw =
     \<lparr>arg_config = [(''k'', JInt 1)], arg_model_storage = (), arg_resource = r,
      arg_execution_context = example_context, arg_kwargs = kw\<rparr>"

text \<open>
  Four nodes named \<open>child\<close>: a lazy one as \<open>__init__\<close> leaves it, the same node built
  eager, a lazy one that is loaded (with \<open>load\<close>) from a configured resource and takes
  a resource from a parent, and an eager one whose run function raises.
\<close>

definition example_lazy :: "(pyval \<times> nat, unit) GraphNode" where
  "example_lazy =
     \<lparr>self_node_name = ''child'',
      self_component_class = example_component,
      self_constructor_name = ''create'',
      self_constructor_fn = (fixed_arguments, example_create),
      self_component_config = [(''k'', JInt 1)],
      self_fn_name = ''run'',
      self_fn = example_run,
      self_inputs = [(''x'', ''parent'')],
      self_eager = False,
      self_model_storage = (),
      self_existing_resource = None,
      self_execution_context = example_context,
      self_hooks = [],
      self_component = None,
      trace = []\<rparr>"

definition example_eager :: "(pyval \<times> nat, unit) GraphNode" where
  "example_eager =
     example_lazy
       \<lparr>self_eager := True,
        self_component := Some (ResourceObj \<lparr>name = ''child''\<rparr>, 0),
        trace := [Instantiated (example_args (ResourceObj \<lparr>name = ''child''\<rparr>) [])]\<rparr>"

definition example_lazy_called :: "(pyval \<times> nat, unit) GraphNode" where
  "example_lazy_called =
     example_lazy
       \<lparr>self_component := Some (ResourceObj \<lparr>name = ''child''\<rparr>, 1),
        trace := [Instantiated (example_args (ResourceObj \<lparr>name = ''child''\<rparr>) []),
                  Ran [(''x'', Json (JInt 5))]]\<rparr>"

definition example_loader :: "(pyval \<times> nat, unit) GraphNode" where
  "example_loader =
     example_lazy
       \<lparr>self_constructor_name := ''load'',
        self_constructor_fn := (fixed_arguments @ [''kwargs''], example_load),
        self_inputs := [(''x'', ''parent''), (''resource'', ''trainer'')],
        self_existing_resource := Some \<lparr>name = ''static''\<rparr>\<rparr>"

definition example_failing :: "(pyval \<times> nat, unit) GraphNode" where
  "example_failing = example_eager\<lparr>self_fn_name := ''fail'', self_fn := example_fail\<rparr>"

definition example_inputs :: "(string \<times> pyval) list" where
  "example_inputs = [(''parent'', Json (JInt 5))]"

definition example_training_inputs :: "(string \<times> pyval) list" where
  "example_training_inputs =
     [(''parent'', Json (JInt 5)), (''trainer'', ResourceObj \<lparr>name = ''runtime''\<rparr>)]"

text \<open>
  What \<open>__call__\<close> makes of the outcome of the run function (lines 410 to 419): an
  exception is wrapped; an output goes through the after hooks and is returned with
  the node name.
\<close>

definition call_outcome ::
  "('c, 'ms) GraphNode \<Rightarrow> (string \<times> json) list list \<Rightarrow> exn + pyval
     \<Rightarrow> ('c, 'ms) GraphNode \<times> (exn + string \<times> pyval)" where
  "call_outcome self input_hook_outputs r =
     (case r of
        Inl e \<Rightarrow>
          (self, Inl (GraphComponentException (running_message (self_node_name self)) e))
      | Inr output \<Rightarrow>
          (case run_after_hooks self input_hook_outputs output of
             (self', output', Inl e) \<Rightarrow> (self', Inl e)
           | (self', output', Inr u) \<Rightarrow> (self', Inr (self_node_name self, output'))))"

text \<open>
  A call gets as far as the constructor of a lazy node: every needed input is there,
  the before hooks return, the constructor is found, and no keyword left for it is one
  of the four it is passed anyway.
\<close>

definition reaches_constructor :: "('c, 'ms) GraphNode \<Rightarrow> (string \<times> pyval) list \<Rightarrow> bool" where
  "reaches_constructor self inputs_from_previous_nodes =
     (case collect_kwargs (self_inputs self) (dict_of inputs_from_previous_nodes) [] of
        Inl e \<Rightarrow> False
      | Inr kwargs \<Rightarrow>
          (case run_before_hooks self kwargs of
             (self0, kwargs', Inl e) \<Rightarrow> False
           | (self0, kwargs', Inr input_hook_outputs) \<Rightarrow>
               (case constructors (self_component_class self0) (self_constructor_name self0) of
                  None \<Rightarrow> False
                | Some constructor \<Rightarrow>
                    \<not> (\<exists>k \<in> set (map fst (arg_kwargs (constructor_arguments self0
                              (minimal_kwargs kwargs' (fst (self_constructor_fn self0)))))).
                         k \<in> set fixed_arguments))))"

text \<open>
  A lazy node with an input named \<open>config\<close>, and an eager node with a hook that
  overwrites the input \<open>x\<close>.
\<close>

definition example_clash :: "(pyval \<times> nat, unit) GraphNode" where
  "example_clash = example_lazy\<lparr>self_inputs := [(''config'', ''parent'')]\<rparr>"

definition example_hook :: GraphNodeHook where
  "example_hook =
     \<lparr>on_before_node = (\<lambda>node_name execution_context config' received_inputs.
        ((execution_context, config', AList.update ''x'' (Json (JInt 99)) received_inputs),
         Inr [])),
      on_after_node = (\<lambda>node_name execution_context config' output input_hook_data.
        ((execution_context, config', output), Inr ()))\<rparr>"

definition example_hooked :: "(pyval \<times> nat, unit) GraphNode" where
  "example_hooked = example_eager\<lparr>self_hooks := [example_hook]\<rparr>"

section \<open>Properties of serialization\<close>

lemma from_dict_loop_raise:
  "list_all (\<lambda>(n, d). node_loads imp d) pre \<Longrightarrow> snd (from_dict_node imp d) = Inl e \<Longrightarrow>
   snd (from_dict_loop imp (pre @ (n, d) # post) acc) = Inl e"
proof (induction pre arbitrary: acc)
  case Nil
  then show ?case by (cases "from_dict_node imp d") auto
next
  case (Cons a pre)
  obtain m dm where a: "a = (m, dm)" by (cases a)
  from Cons.prems(1) a obtain dm' node where n: "from_dict_node imp dm = (dm', Inr node)"
    by (cases "from_dict_node imp dm") (auto simp: node_loads_def split: sum.splits)
  from Cons.prems a have "list_all (\<lambda>(n, d). node_loads imp d) pre" by simp
  from Cons.IH[OF this Cons.prems(2), of "AList.update m node acc"] show ?case
    by (cases "from_dict_loop imp (pre @ (n, d) # post) (AList.update m node acc)")
       (simp add: a n)
qed

lemma from_dict_node_missing_resource:
  assumes "map_of d ''uses'' = Some (Json (JStr path))" "imp path = Some c"
    "map_of d ''resource'' = None"
  shows "snd (from_dict_node imp d) = Inl (KeyError ''resource'')"
  using assms by (simp add: from_dict_node_def update_conv')

lemma from_dict_node_import_error:
  assumes "map_of d ''uses'' = Some (Json (JStr path))" "imp path = None"
  shows "from_dict_node imp d = (d, Inl (GraphSchemaException (deserialization_message path) ImportError))"
  using assms by (simp add: from_dict_node_def)

lemma from_dict_loop_fst_raise:
  "list_all (\<lambda>(n, d). node_loads imp d) pre \<Longrightarrow> from_dict_node imp d = (d', Inl e) \<Longrightarrow>
   from_dict_loop imp (pre @ (n, d) # post) acc =
     (map (\<lambda>(n, d). (n, fst (from_dict_node imp d))) pre @ (n, d') # post, Inl e)"
proof (induction pre arbitrary: acc)
  case Nil
  then show ?case by simp
next
  case (Cons a pre)
  obtain m dm where a: "a = (m, dm)" by (cases a)
  from Cons.prems(1) a obtain dm' node where n: "from_dict_node imp dm = (dm', Inr node)"
    by (cases "from_dict_node imp dm") (auto simp: node_loads_def split: sum.splits)
  from Cons.prems a have "list_all (\<lambda>(n, d). node_loads imp d) pre" by simp
  from Cons.IH[OF this Cons.prems(2), of "AList.update m node acc"] show ?case
    by (simp add: a n)
qed

lemma those_needs_items:
  "those (map (as_needs_item \<circ> (\<lambda>(k, v). (k, JStr v))) xs) = Some xs"
  by (induction xs) auto

lemma from_dict_node_serializable:
  assumes "imp (dotted_path (uses node)) = Some (uses node)"
  shows "snd (from_dict_node imp (serializable_node node)) = Inr node"
proof (cases "resource node")
  case None
  then show ?thesis using assms
    by (simp add: from_dict_node_def serializable_node_def asdict_def SchemaNode_init_def
        SchemaNode_fields_def SchemaNode_required_def typed_fields_def with_default_def
        those_needs_items)
next
  case (Some r)
  then show ?thesis using assms
    by (simp add: from_dict_node_def serializable_node_def asdict_def SchemaNode_init_def
        SchemaNode_fields_def SchemaNode_required_def typed_fields_def with_default_def
        those_needs_items)
qed

lemma update_fresh: "k \<notin> fst ` set al \<Longrightarrow> AList.update k v al = al @ [(k, v)]"
  by (induction al) auto

lemma as_dict_foldl:
  "distinct (map fst xs) \<Longrightarrow> fst ` set acc \<inter> fst ` set xs = {} \<Longrightarrow>
   foldl (\<lambda>ser (node_name, node). AList.update node_name (serializable_node node) ser) acc xs
     = acc @ map (\<lambda>(n, node). (n, serializable_node node)) xs"
proof (induction xs arbitrary: acc)
  case Nil
  then show ?case by simp
next
  case (Cons x xs)
  obtain n node where x: "x = (n, node)" by (cases x)
  have fresh: "n \<notin> fst ` set acc" using Cons.prems(2) x by auto
  have d: "distinct (map fst xs)" using Cons.prems(1) by simp
  have disj: "fst ` set (acc @ [(n, serializable_node node)]) \<inter> fst ` set xs = {}"
    using Cons.prems x by auto
  show ?case using Cons.IH[OF d disj] by (simp add: x update_fresh[OF fresh])
qed

lemma from_dict_loop_serializable:
  "distinct (map fst xs) \<Longrightarrow> fst ` set acc \<inter> fst ` set xs = {} \<Longrightarrow>
   \<forall>(n, node) \<in> set xs. imp (dotted_path (uses node)) = Some (uses node) \<Longrightarrow>
   snd (from_dict_loop imp (map (\<lambda>(n, node). (n, serializable_node node)) xs) acc) = Inr (acc @ xs)"
proof (induction xs arbitrary: acc)
  case Nil
  then show ?case by simp
next
  case (Cons x xs)
  obtain n node where x: "x = (n, node)" by (cases x)
  have fresh: "n \<notin> fst ` set acc" using Cons.prems(2) x by auto
  have d: "distinct (map fst xs)" using Cons.prems(1) by simp
  have disj: "fst ` set (acc @ [(n, node)]) \<inter> fst ` set xs = {}"
    using Cons.prems x by auto
  have rest: "\<forall>(n, node) \<in> set xs. imp (dotted_path (uses node)) = Some (uses node)"
    using Cons.prems(3) by simp
  have h: "imp (dotted_path (uses node)) = Some (uses node)" using Cons.prems(3) x by simp
  obtain d' where n: "from_dict_node imp (serializable_node node) = (d', Inr node)"
    using from_dict_node_serializable[of imp node, OF h]
    by (cases "from_dict_node imp (serializable_node node)") simp
  show ?case using Cons.IH[OF d disj rest]
    by (cases "from_dict_loop imp (map (\<lambda>(n, node). (n, serializable_node node)) xs) (acc @ [(n, node)])")
       (simp add: x n update_fresh[OF fresh])
qed

text \<open>
  C1. For every schema (a dict: node names pairwise distinct) whose component classes
  are importable by their dotted path, \<open>from_dict (as_dict s)\<close> returns \<open>s\<close> itself:
  the same node names in the same order, and for each node the same \<open>needs\<close>, class,
  \<open>constructor_name\<close>, \<open>fn\<close>, \<open>config\<close>, \<open>eager\<close>, \<open>is_target\<close>, \<open>is_input\<close> and
  \<open>resource\<close>. Acyclicity of \<open>needs\<close> is not needed.
\<close>

theorem as_dict_from_dict_roundtrip:
  assumes "distinct (map fst (nodes s))"
    and "\<forall>(n, node) \<in> set (nodes s). imp (dotted_path (uses node)) = Some (uses node)"
  shows "snd (from_dict imp (as_dict s)) = Inr s"
proof -
  have a: "as_dict s = map (\<lambda>(n, node). (n, serializable_node node)) (nodes s)"
    unfolding as_dict_def using as_dict_foldl[OF assms(1), of "[]"] by simp
  have "snd (from_dict_loop imp (as_dict s) []) = Inr (nodes s)"
    unfolding a using from_dict_loop_serializable[OF assms(1) _ assms(2), of "[]"] by simp
  then show ?thesis
    by (cases "from_dict_loop imp (as_dict s) []") (simp add: from_dict_def)
qed

lemma from_dict_node_Inr:
  "from_dict_node imp d = (d', Inr node) \<Longrightarrow> replaced_in_place imp d d'"
  by (auto simp: from_dict_node_def replaced_in_place_def Let_def update_conv'
      split: option.splits pyval.splits json.splits if_splits sum.splits)

lemma replaced_in_place_map_of:
  assumes r: "replaced_in_place imp d d'"
  shows "\<exists>c. map_of d' ''uses'' = Some (ClassObj c)"
proof -
  obtain path where u: "map_of d ''uses'' = Some (Json (JStr path))"
    using r unfolding replaced_in_place_def
    by (simp split: option.splits pyval.splits json.splits)
  obtain c where c: "imp path = Some c"
    using r u unfolding replaced_in_place_def by (simp split: option.splits)
  obtain v where v: "map_of d ''resource'' = Some v"
    using r u c unfolding replaced_in_place_def by (simp split: option.splits)
  show ?thesis
  proof (cases "truthy v")
    case True
    then obtain res where "Resource_init v = Inr res"
      using r u c v unfolding replaced_in_place_def by (simp split: sum.splits)
    with True r u c v show ?thesis
      unfolding replaced_in_place_def by (simp add: update_conv')
  next
    case False
    with r u c v show ?thesis
      unfolding replaced_in_place_def by (simp add: update_conv')
  qed
qed

lemma replaced_in_place_uses:
  "replaced_in_place imp d d' \<Longrightarrow> \<exists>c. (''uses'', ClassObj c) \<in> set d'"
  using replaced_in_place_map_of map_of_SomeD by fastforce

lemma from_dict_loop_Inr:
  "from_dict_loop imp ser acc = (ser', Inr ns) \<Longrightarrow>
   list_all2 (\<lambda>(n, d) (n', d'). n' = n \<and> replaced_in_place imp d d') ser ser'"
proof (induction ser arbitrary: acc ser')
  case Nil
  then show ?case by simp
next
  case (Cons a ser)
  obtain m dm where a: "a = (m, dm)" by (cases a)
  obtain dm' r where n: "from_dict_node imp dm = (dm', r)" by (cases "from_dict_node imp dm")
  show ?case
  proof (cases r)
    case (Inl e)
    with Cons.prems a n show ?thesis by simp
  next
    case (Inr node)
    obtain rest' r' where l: "from_dict_loop imp ser (AList.update m node acc) = (rest', r')"
      by (cases "from_dict_loop imp ser (AList.update m node acc)")
    from Cons.prems a n Inr l have s: "ser' = (m, dm') # rest'" and r': "r' = Inr ns" by simp_all
    from Cons.IH[OF l[unfolded r']] from_dict_node_Inr[OF n[unfolded Inr]]
    show ?thesis by (simp add: s a)
  qed
qed

text \<open>
  C9. When \<open>from_dict\<close> returns a schema, the dictionary it was given has changed: in
  every node entry the path under \<open>uses\<close> is replaced by the resolved class object and
  a truthy value under \<open>resource\<close> by the \<open>Resource\<close> object built from it, all else in
  place; so a non-empty input is no longer JSON-safe afterwards.
\<close>

theorem from_dict_mutates_serialized:
  assumes "from_dict imp ser = (ser', Inr g)"
  shows "list_all2 (\<lambda>(n, d) (n', d'). n' = n \<and> replaced_in_place imp d d') ser ser'
         \<and> (ser \<noteq> [] \<longrightarrow> \<not> json_safe ser')"
proof -
  obtain ns where l: "from_dict_loop imp ser [] = (ser', Inr ns)"
    using assms by (cases "from_dict_loop imp ser []") (auto simp: from_dict_def split: sum.splits)
  have r: "list_all2 (\<lambda>(n, d) (n', d'). n' = n \<and> replaced_in_place imp d d') ser ser'"
    by (rule from_dict_loop_Inr[OF l])
  have "\<not> json_safe ser'" if "ser \<noteq> []"
  proof -
    from that r obtain n d rest n' d' rest' where
      ser': "ser' = (n', d') # rest'" and rep: "replaced_in_place imp d d'"
      by (cases ser; cases ser') auto
    from replaced_in_place_uses[OF rep] obtain c where "(''uses'', ClassObj c) \<in> set d'" ..
    then have "\<not> list_all (\<lambda>(k, v). is_json v) d'"
      unfolding list_all_iff by (rule_tac notI, drule_tac x = "(''uses'', ClassObj c)" in bspec) simp_all
    then show ?thesis by (simp add: json_safe_def ser')
  qed
  with r show ?thesis by simp
qed

lemmas example_defs =
  example_class_def example_import_def example_parent_def example_child_def example_schema_def

lemmas from_dict_defs =
  from_dict_node_def serializable_node_def asdict_def SchemaNode_init_def dotted_path_def
  SchemaNode_fields_def SchemaNode_required_def typed_fields_def with_default_def

theorem as_dict_from_dict_roundtrip_witness:
  "distinct (map fst (nodes example_schema))
   \<and> list_all (\<lambda>(n, node). example_import (dotted_path (uses node)) = Some (uses node))
         (nodes example_schema)
   \<and> snd (from_dict example_import (as_dict example_schema)) = Inr example_schema"
proof -
  have d: "distinct (map fst (nodes example_schema))"
    by (simp add: example_defs)
  have i: "\<forall>(n, node) \<in> set (nodes example_schema).
            example_import (dotted_path (uses node)) = Some (uses node)"
    by (simp add: example_defs dotted_path_def)
  show ?thesis using d i as_dict_from_dict_roundtrip[OF d i] by (simp add: list_all_iff)
qed

text \<open>
  C8. When the loop reaches a node whose \<open>uses\<close> path cannot be imported (every entry
  before it loads), \<open>from_dict\<close> raises \<open>GraphSchemaException\<close> with the \<open>ImportError\<close> as
  cause and a message that quotes the path; no schema is returned, the failing entry
  and the entries after it are left as they were.
\<close>

theorem from_dict_unresolvable_uses:
  assumes "list_all (\<lambda>(n, d). node_loads imp d) pre"
    and "map_of d ''uses'' = Some (Json (JStr path))"
    and "imp path = None"
  shows "from_dict imp (pre @ (node_name, d) # post) =
           (map (\<lambda>(n, d). (n, fst (from_dict_node imp d))) pre @ (node_name, d) # post,
            Inl (GraphSchemaException
                   (''Error deserializing graph schema. Can't find class for graph component type ''
                    @ [CHR 0x27] @ path @ [CHR 0x27] @ ''.'') ImportError))"
  using from_dict_loop_fst_raise[OF assms(1) from_dict_node_import_error[where imp = imp and path = path and d = d, OF assms(2,3)]]
  by (simp add: from_dict_def deserialization_message_def)

theorem from_dict_unresolvable_uses_witness:
  "from_dict example_import
     ([(''parent'', serializable_node example_parent)] @
      (''child'', AList.update ''uses'' (Json (JStr ''not.a.real.module.Foo''))
                    (serializable_node example_child)) # []) =
   ([(''parent'', AList.update ''uses'' (ClassObj example_class)
                    (serializable_node example_parent)),
     (''child'', AList.update ''uses'' (Json (JStr ''not.a.real.module.Foo''))
                    (serializable_node example_child))],
    Inl (GraphSchemaException
           (''Error deserializing graph schema. Can't find class for graph component type ''
            @ [CHR 0x27] @ ''not.a.real.module.Foo'' @ [CHR 0x27] @ ''.'') ImportError))"
proof -
  have p: "list_all (\<lambda>(n, d). node_loads example_import d)
             [(''parent'', serializable_node example_parent)]"
    by (simp add: node_loads_def from_dict_defs example_defs)
  have u: "map_of (AList.update ''uses'' (Json (JStr ''not.a.real.module.Foo''))
                    (serializable_node example_child)) ''uses''
           = Some (Json (JStr ''not.a.real.module.Foo''))"
    by (simp add: update_conv')
  have i: "example_import ''not.a.real.module.Foo'' = None"
    by (simp add: example_import_def)
  have f: "fst (from_dict_node example_import (serializable_node example_parent))
           = AList.update ''uses'' (ClassObj example_class) (serializable_node example_parent)"
    by (simp add: from_dict_defs example_defs)
  show ?thesis
    using from_dict_unresolvable_uses[where imp = example_import and path = "''not.a.real.module.Foo''" and node_name = "''child''" and post = "[]", OF p u i] by (simp add: f)
qed

text \<open>
  C10. A serialized node with an importable \<open>uses\<close> but without the key \<open>resource\<close>
  makes \<open>from_dict\<close> raise \<open>KeyError\<close> for \<open>resource\<close>, as it is: not wrapped in a
  \<open>GraphSchemaException\<close>.
\<close>

theorem from_dict_missing_resource_key:
  assumes "list_all (\<lambda>(n, d). node_loads imp d) pre"
    and "map_of d ''uses'' = Some (Json (JStr path))"
    and "imp path = Some c"
    and "map_of d ''resource'' = None"
  shows "snd (from_dict imp (pre @ (node_name, d) # post)) = Inl (KeyError ''resource'')"
proof -
  have "snd (from_dict_loop imp (pre @ (node_name, d) # post) []) = Inl (KeyError ''resource'')"
    by (rule from_dict_loop_raise[OF assms(1) from_dict_node_missing_resource[where imp = imp and path = path and d = d, OF assms(2,3,4)]])
  then show ?thesis
    by (cases "from_dict_loop imp (pre @ (node_name, d) # post) []") (simp add: from_dict_def)
qed

theorem from_dict_missing_resource_key_witness:
  "snd (from_dict example_import
     ([(''parent'', serializable_node example_parent)] @
      (''child'', AList.delete ''resource'' (serializable_node example_child)) # []))
   = Inl (KeyError ''resource'')"
proof -
  have p: "list_all (\<lambda>(n, d). node_loads example_import d)
             [(''parent'', serializable_node example_parent)]"
    by (simp add: node_loads_def from_dict_defs example_defs)
  have u: "map_of (AList.delete ''resource'' (serializable_node example_child)) ''uses''
           = Some (Json (JStr ''pkg.components.Tokenizer''))"
    by (simp add: from_dict_defs example_defs delete_conv')
  have i: "example_import ''pkg.components.Tokenizer'' = Some example_class"
    by (simp add: example_import_def)
  have r: "map_of (AList.delete ''resource'' (serializable_node example_child)) ''resource'' = None"
    by (simp add: delete_conv')
  show ?thesis
    by (rule from_dict_missing_resource_key[where imp = example_import and path = "''pkg.components.Tokenizer''", OF p u i r])
qed

theorem from_dict_mutates_serialized_witness:
  "from_dict example_import (as_dict example_schema)
     = ([(''parent'', AList.update ''uses'' (ClassObj example_class)
                        (serializable_node example_parent)),
         (''child'', AList.update ''resource'' (ResourceObj \<lparr>name = ''trained''\<rparr>)
                       (AList.update ''uses'' (ClassObj example_class)
                          (serializable_node example_child)))],
        Inr example_schema)
   \<and> json_safe (as_dict example_schema)
   \<and> \<not> json_safe (fst (from_dict example_import (as_dict example_schema)))"
proof -
  have a: "as_dict example_schema =
             [(''parent'', serializable_node example_parent),
              (''child'', serializable_node example_child)]"
    by (simp add: as_dict_def example_schema_def)
  have f: "from_dict example_import (as_dict example_schema)
     = ([(''parent'', AList.update ''uses'' (ClassObj example_class)
                        (serializable_node example_parent)),
         (''child'', AList.update ''resource'' (ResourceObj \<lparr>name = ''trained''\<rparr>)
                       (AList.update ''uses'' (ClassObj example_class)
                          (serializable_node example_child)))],
        Inr example_schema)"
    unfolding a by (simp add: from_dict_def from_dict_defs example_defs)
  have s: "json_safe (as_dict example_schema)"
    unfolding a by (simp add: json_safe_def from_dict_defs example_defs)
  have ne: "as_dict example_schema \<noteq> []"
    by (simp add: a)
  from from_dict_mutates_serialized[OF f] ne
  have "\<not> json_safe (fst (from_dict example_import (as_dict example_schema)))"
    by (simp add: f)
  with f s show ?thesis by simp
qed

section \<open>Properties of minimal_graph_schema\<close>

lemmas deps_induct = all_dependencies_schema_targets_loop_dependencies_loop.induct

lemma rtrancl_image_step: "R\<^sup>* `` {t} = insert t (R\<^sup>* `` (R `` {t}))"
proof
  show "R\<^sup>* `` {t} \<subseteq> insert t (R\<^sup>* `` (R `` {t}))"
    by (auto elim: converse_rtranclE)
  show "insert t (R\<^sup>* `` (R `` {t})) \<subseteq> R\<^sup>* `` {t}"
    by (auto intro: converse_rtrancl_into_rtrancl)
qed

lemma needs_rel_image:
  "map_of (nodes s) t = Some node \<Longrightarrow> needs_rel s `` {t} = set (map snd (needs node))"
  by (auto simp: needs_rel_def)

lemma reach_cons:
  assumes "map_of (nodes s) t = Some node"
  shows "(needs_rel s)\<^sup>* `` set (t # ts) =
         insert t ((needs_rel s)\<^sup>* `` set (map snd (needs node))) \<union> (needs_rel s)\<^sup>* `` set ts"
proof -
  have "(needs_rel s)\<^sup>* `` set (t # ts) = (needs_rel s)\<^sup>* `` {t} \<union> (needs_rel s)\<^sup>* `` set ts"
    by auto
  also have "(needs_rel s)\<^sup>* `` {t} = insert t ((needs_rel s)\<^sup>* `` (needs_rel s `` {t}))"
    by (rule rtrancl_image_step)
  finally show ?thesis by (simp only: needs_rel_image[OF assms])
qed

lemma deps_set:
  "all_dependencies_schema k s ts = Some (Inr r) \<Longrightarrow> set r = (needs_rel s)\<^sup>* `` set ts"
  "targets_loop k s ts acc = Some (Inr r) \<Longrightarrow> set r = set acc \<union> (needs_rel s)\<^sup>* `` set ts"
  "dependencies_loop k s ds acc = Some (Inr r) \<Longrightarrow> set r = set acc \<union> (needs_rel s)\<^sup>* `` set ds"
proof (induction k s ts and k s ts acc and k s ds acc arbitrary: r and r and r rule: deps_induct)
  case (1 self targets)
  then show ?case by simp
next
  case (2 depth self targets)
  then show ?case by simp
next
  case (3 depth self required)
  then show ?case by simp
next
  case (4 depth self target targets required)
  from "4.prems" obtain node where n: "map_of (nodes self) target = Some node"
    by (auto split: option.splits)
  from "4.prems" n obtain r1 where
    d: "dependencies_loop depth self (map snd (needs node)) (required @ [target]) = Some (Inr r1)"
    and t: "targets_loop depth self targets r1 = Some (Inr r)"
    by (auto split: option.splits sum.splits)
  have 1: "set r1 = set (required @ [target]) \<union> (needs_rel self)\<^sup>* `` set (map snd (needs node))"
    by (rule "4.IH"(1)[OF n d])
  have 2: "set r = set r1 \<union> (needs_rel self)\<^sup>* `` set targets"
    by (rule "4.IH"(2)[OF n d refl t])
  show ?case unfolding 2 1 reach_cons[OF n] by auto
next
  case (5 depth self required)
  then show ?case by simp
next
  case (6 depth self dependency dependencies required)
  from "6.prems" obtain r1 where
    a: "all_dependencies_schema depth self [dependency] = Some (Inr r1)"
    and d: "dependencies_loop depth self dependencies (required @ r1) = Some (Inr r)"
    by (auto split: option.splits sum.splits)
  have 1: "set r1 = (needs_rel self)\<^sup>* `` set [dependency]"
    by (rule "6.IH"(1)[OF a])
  have 2: "set r = set (required @ r1) \<union> (needs_rel self)\<^sup>* `` set dependencies"
    by (rule "6.IH"(2)[OF a refl d])
  show ?case using 1 2 by auto
qed

lemma fuel_Suc:
  "all_dependencies_schema k s ts = Some x \<Longrightarrow> all_dependencies_schema (Suc k) s ts = Some x"
  "targets_loop k s ts acc = Some x \<Longrightarrow> targets_loop (Suc k) s ts acc = Some x"
  "dependencies_loop k s ds acc = Some x \<Longrightarrow> dependencies_loop (Suc k) s ds acc = Some x"
proof (induction k s ts and k s ts acc and k s ds acc arbitrary: x and x and x rule: deps_induct)
  case (1 self targets)
  then show ?case by simp
next
  case (2 depth self targets)
  then show ?case by simp
next
  case (3 depth self required)
  then show ?case by simp
next
  case (4 depth self target targets required)
  show ?case
  proof (cases "map_of (nodes self) target")
    case None
    with "4.prems" show ?thesis by simp
  next
    case (Some node)
    from "4.prems" Some obtain y where
      d: "dependencies_loop depth self (map snd (needs node)) (required @ [target]) = Some y"
      by (auto split: option.splits)
    note d' = "4.IH"(1)[OF Some d]
    show ?thesis
    proof (cases y)
      case (Inl e)
      from "4.prems" Some d Inl have "x = Inl e" by simp
      with Some d' Inl show ?thesis by simp
    next
      case (Inr r1)
      from "4.prems" Some d Inr have t: "targets_loop depth self targets r1 = Some x" by simp
      from "4.IH"(2)[OF Some d Inr t] Some d' Inr show ?thesis by simp
    qed
  qed
next
  case (5 depth self required)
  then show ?case by simp
next
  case (6 depth self dependency dependencies required)
  from "6.prems" obtain y where a: "all_dependencies_schema depth self [dependency] = Some y"
    by (auto split: option.splits)
  note a' = "6.IH"(1)[OF a]
  show ?case
  proof (cases y)
    case (Inl e)
    from "6.prems" a Inl have "x = Inl e" by simp
    with a' Inl show ?thesis by simp
  next
    case (Inr r1)
    from "6.prems" a Inr have d: "dependencies_loop depth self dependencies (required @ r1) = Some x"
      by simp
    from "6.IH"(2)[OF a Inr d] a' Inr show ?thesis by simp
  qed
qed

lemma fuel_mono:
  assumes "k \<le> k'"
  shows "all_dependencies_schema k s ts = Some x \<Longrightarrow> all_dependencies_schema k' s ts = Some x"
    and "targets_loop k s ts acc = Some x \<Longrightarrow> targets_loop k' s ts acc = Some x"
    and "dependencies_loop k s ds acc = Some x \<Longrightarrow> dependencies_loop k' s ds acc = Some x"
proof -
  show "all_dependencies_schema k s ts = Some x \<Longrightarrow> all_dependencies_schema k' s ts = Some x"
    using assms by (induction k' rule: dec_induct) (auto intro: fuel_Suc(1) simp del: all_dependencies_schema.simps)
  show "targets_loop k s ts acc = Some x \<Longrightarrow> targets_loop k' s ts acc = Some x"
    using assms by (induction k' rule: dec_induct) (auto intro: fuel_Suc(2))
  show "dependencies_loop k s ds acc = Some x \<Longrightarrow> dependencies_loop k' s ds acc = Some x"
    using assms by (induction k' rule: dec_induct) (auto intro: fuel_Suc(3))
qed

lemma dependencies_loop_total:
  assumes "\<forall>d \<in> set ds. \<exists>k r. all_dependencies_schema k s [d] = Some (Inr r)"
  shows "\<exists>k. \<forall>acc. \<exists>r. dependencies_loop k s ds acc = Some (Inr r)"
  using assms
proof (induction ds)
  case Nil
  then show ?case by simp
next
  case (Cons d ds)
  from Cons.prems obtain k1 r1 where 1: "all_dependencies_schema k1 s [d] = Some (Inr r1)"
    by auto
  from Cons obtain k2 where 2: "\<forall>acc. \<exists>r. dependencies_loop k2 s ds acc = Some (Inr r)"
    by auto
  let ?k = "max k1 k2"
  have a: "all_dependencies_schema ?k s [d] = Some (Inr r1)"
    by (rule fuel_mono(1)[OF _ 1]) simp
  have "\<exists>r. dependencies_loop ?k s (d # ds) acc = Some (Inr r)" for acc
  proof -
    from 2 obtain r where "dependencies_loop k2 s ds (acc @ r1) = Some (Inr r)" by blast
    then have "dependencies_loop ?k s ds (acc @ r1) = Some (Inr r)"
      by (rule fuel_mono(3)[rotated]) simp
    with a show ?thesis by simp
  qed
  then show ?case by blast
qed

lemma node_total:
  assumes n: "map_of (nodes s) n = Some node"
    and d: "\<forall>d \<in> set (map snd (needs node)). \<exists>k r. all_dependencies_schema k s [d] = Some (Inr r)"
  shows "\<exists>k. \<forall>acc. \<exists>r. targets_loop k s [n] acc = Some (Inr r)"
proof -
  from dependencies_loop_total[OF d] obtain k where
    k: "\<forall>acc. \<exists>r. dependencies_loop k s (map snd (needs node)) acc = Some (Inr r)" ..
  have "\<exists>r. targets_loop k s [n] acc = Some (Inr r)" for acc
  proof -
    from k obtain r where "dependencies_loop k s (map snd (needs node)) (acc @ [n]) = Some (Inr r)"
      by blast
    with n show ?thesis by simp
  qed
  then show ?thesis by blast
qed

lemma targets_loop_total:
  assumes "\<forall>t \<in> set ts. \<exists>k. \<forall>acc. \<exists>r. targets_loop k s [t] acc = Some (Inr r)"
  shows "\<exists>k. \<forall>acc. \<exists>r. targets_loop k s ts acc = Some (Inr r)"
  using assms
proof (induction ts)
  case Nil
  then show ?case by simp
next
  case (Cons t ts)
  from Cons.prems obtain k1 where 1: "\<forall>acc. \<exists>r. targets_loop k1 s [t] acc = Some (Inr r)"
    by auto
  from Cons obtain k2 where 2: "\<forall>acc. \<exists>r. targets_loop k2 s ts acc = Some (Inr r)"
    by auto
  let ?k = "max k1 k2"
  have "\<exists>r. targets_loop ?k s (t # ts) acc = Some (Inr r)" for acc
  proof -
    from 1 obtain r1 where "targets_loop k1 s [t] acc = Some (Inr r1)" by blast
    then have t1: "targets_loop ?k s [t] acc = Some (Inr r1)"
      by (rule fuel_mono(2)[rotated]) simp
    then obtain node where n: "map_of (nodes s) t = Some node"
      by (auto split: option.splits)
    from t1 n have d: "dependencies_loop ?k s (map snd (needs node)) (acc @ [t]) = Some (Inr r1)"
      by (auto split: option.splits sum.splits)
    from 2 obtain r where "targets_loop k2 s ts r1 = Some (Inr r)" by blast
    then have "targets_loop ?k s ts r1 = Some (Inr r)"
      by (rule fuel_mono(2)[rotated]) simp
    with n d show ?thesis by simp
  qed
  then show ?case by blast
qed

lemma finite_needs_rel: "finite (needs_rel s)"
proof -
  have "needs_rel s \<subseteq> (\<Union>(n, node) \<in> set (nodes s). {n} \<times> snd ` set (needs node))"
    by (auto simp: needs_rel_def dest: map_of_SomeD)
  moreover have "finite (\<Union>(n, node) \<in> set (nodes s). {n} \<times> snd ` set (needs node))"
    by auto
  ultimately show ?thesis by (rule finite_subset)
qed

lemma target_names_keys: "set (target_names s) \<subseteq> fst ` set (nodes s)"
  by (auto simp: target_names_def intro: rev_image_eqI)

lemma reachable_keys:
  assumes "\<forall>(n, node) \<in> set (nodes s). \<forall>d \<in> snd ` set (needs node). d \<in> fst ` set (nodes s)"
    and "n \<in> reachable s"
  shows "n \<in> fst ` set (nodes s)"
proof -
  from assms(2) obtain t where t: "t \<in> set (target_names s)" and r: "(t, n) \<in> (needs_rel s)\<^sup>*"
    by (auto simp: reachable_def)
  from r show ?thesis
  proof (cases rule: rtranclE)
    case base
    with t target_names_keys show ?thesis by auto
  next
    case (step y)
    then obtain node where "map_of (nodes s) y = Some node" "n \<in> snd ` set (needs node)"
      by (auto simp: needs_rel_def)
    with assms(1) show ?thesis by (auto dest!: map_of_SomeD)
  qed
qed

lemma reachable_step: "n \<in> reachable s \<Longrightarrow> (n, d) \<in> needs_rel s \<Longrightarrow> d \<in> reachable s"
  by (auto simp: reachable_def intro: rtrancl_into_rtrancl)

lemma reachable_total:
  assumes ex: "\<forall>(n, node) \<in> set (nodes s). \<forall>d \<in> snd ` set (needs node). d \<in> fst ` set (nodes s)"
    and ac: "acyclic {(n, d) \<in> needs_rel s. n \<in> reachable s}"
  shows "n \<in> reachable s \<Longrightarrow> \<exists>k. \<forall>acc. \<exists>r. targets_loop k s [n] acc = Some (Inr r)"
proof -
  let ?Rr = "{(n, d) \<in> needs_rel s. n \<in> reachable s}"
  have "finite ?Rr" by (rule finite_subset[OF _ finite_needs_rel[of s]]) auto
  then have wf: "wf (?Rr\<inverse>)" using ac by (rule finite_acyclic_wf_converse)
  show "n \<in> reachable s \<Longrightarrow> \<exists>k. \<forall>acc. \<exists>r. targets_loop k s [n] acc = Some (Inr r)"
    using wf
  proof (induction n rule: wf_induct_rule)
    case (less n)
    from reachable_keys[OF ex less.prems] obtain node where n: "map_of (nodes s) n = Some node"
      by (metis domIff dom_map_of_conv_image_fst not_Some_eq)
    have "\<exists>k r. all_dependencies_schema k s [d] = Some (Inr r)"
      if "d \<in> set (map snd (needs node))" for d
    proof -
      from that n have e: "(n, d) \<in> needs_rel s" by (auto simp: needs_rel_def)
      then have "d \<in> reachable s" using less.prems by (rule reachable_step[rotated])
      moreover from e less.prems have "(d, n) \<in> ?Rr\<inverse>" by simp
      ultimately obtain k where "\<forall>acc. \<exists>r. targets_loop k s [d] acc = Some (Inr r)"
        using less.IH by blast
      then obtain r where "targets_loop k s [d] [] = Some (Inr r)" by blast
      then have "all_dependencies_schema (Suc k) s [d] = Some (Inr r)" by simp
      then show ?thesis by blast
    qed
    then show ?case using node_total[OF n] by blast
  qed
qed

lemma map_of_filter_key:
  "map_of (filter (\<lambda>(k, v). P k) xs) k = (if P k then map_of xs k else None)"
  by (induction xs) auto

lemma prune_same:
  "\<forall>t \<in> S. needs_rel s `` {t} \<subseteq> S \<Longrightarrow> set ts \<subseteq> S \<Longrightarrow>
     all_dependencies_schema k (prune S s) ts = all_dependencies_schema k s ts"
  "\<forall>t \<in> S. needs_rel s `` {t} \<subseteq> S \<Longrightarrow> set ts \<subseteq> S \<Longrightarrow>
     targets_loop k (prune S s) ts acc = targets_loop k s ts acc"
  "\<forall>t \<in> S. needs_rel s `` {t} \<subseteq> S \<Longrightarrow> set ds \<subseteq> S \<Longrightarrow>
     dependencies_loop k (prune S s) ds acc = dependencies_loop k s ds acc"
proof (induction k s ts and k s ts acc and k s ds acc rule: deps_induct)
  case (1 self targets)
  then show ?case by simp
next
  case (2 depth self targets)
  then show ?case by simp
next
  case (3 depth self required)
  then show ?case by simp
next
  case (4 depth self target targets required)
  from "4.prems" have tS: "target \<in> S" and rest: "set targets \<subseteq> S" by auto
  have look: "map_of (nodes (prune S self)) target = map_of (nodes self) target"
    using tS by (simp add: prune_def map_of_filter_key)
  show ?case
  proof (cases "map_of (nodes self) target")
    case None
    with look show ?thesis by simp
  next
    case (Some node)
    have "set (map snd (needs node)) \<subseteq> S"
      using "4.prems"(1) tS needs_rel_image[OF Some] by blast
    note d = "4.IH"(1)[OF Some "4.prems"(1) this]
    show ?thesis
    proof (cases "dependencies_loop depth self (map snd (needs node)) (required @ [target])")
      case None
      with look Some d show ?thesis by simp
    next
      case outer: (Some y)
      show ?thesis
      proof (cases y)
        case (Inl e)
        with look Some d outer show ?thesis by simp
      next
        case (Inr b)
        from "4.IH"(2)[OF Some outer Inr "4.prems"(1) rest] look Some d outer Inr
        show ?thesis by simp
      qed
    qed
  qed
next
  case (5 depth self required)
  then show ?case by simp
next
  case (6 depth self dependency dependencies required)
  from "6.prems" have dS: "set [dependency] \<subseteq> S" and rest: "set dependencies \<subseteq> S" by auto
  note a = "6.IH"(1)[OF "6.prems"(1) dS]
  show ?case
  proof (cases "all_dependencies_schema depth self [dependency]")
    case None
    with a show ?thesis by simp
  next
    case (Some y)
    show ?thesis
    proof (cases y)
      case (Inl e)
      with a Some show ?thesis by simp
    next
      case (Inr b)
      from "6.IH"(2)[OF Some Inr "6.prems"(1) rest] a Some Inr show ?thesis by simp
    qed
  qed
qed

lemma prune_prune: "prune S (prune S s) = prune S s"
  by (simp add: prune_def)

lemma target_names_prune:
  "set (target_names s) \<subseteq> S \<Longrightarrow> target_names (prune S s) = target_names s"
proof -
  assume a: "set (target_names s) \<subseteq> S"
  have "filter (\<lambda>(n, node). is_target node) (filter (\<lambda>(n, node). n \<in> S) (nodes s))
        = filter (\<lambda>(n, node). is_target node) (nodes s)"
    unfolding filter_filter
  proof (rule filter_cong[OF refl])
    fix x assume xin: "x \<in> set (nodes s)"
    obtain n node where x: "x = (n, node)" by (cases x)
    have "n \<in> S" if "is_target node"
      using a xin x that by (force simp: target_names_def)
    then show "((case x of (n, node) \<Rightarrow> n \<in> S) \<and> (case x of (n, node) \<Rightarrow> is_target node))
               = (case x of (n, node) \<Rightarrow> is_target node)"
      by (auto simp: x)
  qed
  then show ?thesis by (simp add: target_names_def prune_def)
qed

lemma reachable_closed: "\<forall>t \<in> reachable s. needs_rel s `` {t} \<subseteq> reachable s"
  by (auto intro: reachable_step)

lemma targets_reachable: "set (target_names s) \<subseteq> reachable s"
  by (auto simp: reachable_def)

text \<open>
  C2. For a schema (a dict: node names pairwise distinct) in which every value of every
  \<open>needs\<close> names a node and whose \<open>needs\<close> graph is acyclic on the nodes reachable from
  the targets, \<open>minimal_graph_schema\<close> returns (at every sufficient depth of nested
  calls) a schema \<open>s'\<close> whose node names are exactly the nodes reachable from the
  targets along \<open>needs\<close>, each once and with the node it had in \<open>s\<close>; and
  \<open>minimal_graph_schema\<close> of \<open>s'\<close> is \<open>s'\<close> again.
\<close>

theorem minimal_graph_schema_reachable:
  assumes dist: "distinct (map fst (nodes s))"
    and ex: "\<forall>(n, node) \<in> set (nodes s). \<forall>d \<in> snd ` set (needs node). d \<in> fst ` set (nodes s)"
    and ac: "acyclic {(n, d) \<in> needs_rel s. n \<in> reachable s}"
  shows "\<exists>depth s'.
           (\<forall>k \<ge> depth. minimal_graph_schema k s = Some (Inr s'))
         \<and> fst ` set (nodes s') = reachable s
         \<and> distinct (map fst (nodes s'))
         \<and> (\<forall>n \<in> reachable s. map_of (nodes s') n = map_of (nodes s) n)
         \<and> (\<forall>k \<ge> depth. minimal_graph_schema k s' = Some (Inr s'))"
proof -
  let ?S = "reachable s"
  let ?s' = "prune ?S s"
  have "\<forall>t \<in> set (target_names s). \<exists>k. \<forall>acc. \<exists>r. targets_loop k s [t] acc = Some (Inr r)"
    using reachable_total[OF ex ac] targets_reachable by blast
  from targets_loop_total[OF this] obtain k0 deps where
    "targets_loop k0 s (target_names s) [] = Some (Inr deps)" by blast
  then have d0: "all_dependencies_schema (Suc k0) s (target_names s) = Some (Inr deps)" by simp
  have sd: "set deps = ?S" using deps_set(1)[OF d0] by (simp add: reachable_def)
  have run: "minimal_graph_schema k s = Some (Inr ?s')" if "Suc k0 \<le> k" for k
  proof -
    have "all_dependencies_schema k s (target_names s) = Some (Inr deps)"
      by (rule fuel_mono(1)[OF that d0])
    then show ?thesis by (simp add: minimal_graph_schema_def prune_def sd)
  qed
  have keys: "fst ` set (nodes ?s') = ?S"
  proof
    show "fst ` set (nodes ?s') \<subseteq> ?S" by (auto simp: prune_def)
    show "?S \<subseteq> fst ` set (nodes ?s')"
    proof
      fix n assume n: "n \<in> ?S"
      from reachable_keys[OF ex n] obtain node where "(n, node) \<in> set (nodes s)" by auto
      with n have "(n, node) \<in> set (nodes ?s')" by (simp add: prune_def)
      then show "n \<in> fst ` set (nodes ?s')" by (rule rev_image_eqI) simp
    qed
  qed
  have dist': "distinct (map fst (nodes ?s'))"
    using dist by (simp add: prune_def distinct_map_filter)
  have same: "\<forall>n \<in> ?S. map_of (nodes ?s') n = map_of (nodes s) n"
    by (simp add: prune_def map_of_filter_key)
  have again: "minimal_graph_schema k ?s' = Some (Inr ?s')" if "Suc k0 \<le> k" for k
  proof -
    have "all_dependencies_schema k s (target_names s) = Some (Inr deps)"
      by (rule fuel_mono(1)[OF that d0])
    then have "all_dependencies_schema k ?s' (target_names ?s') = Some (Inr deps)"
      using prune_same(1)[where S = "reachable s" and s = s and ts = "target_names s" and k = k,
          OF reachable_closed targets_reachable]
      by (simp add: target_names_prune[OF targets_reachable])
    then have "minimal_graph_schema k ?s' = Some (Inr (prune ?S ?s'))"
      by (simp add: minimal_graph_schema_def prune_def sd)
    then show ?thesis by (simp add: prune_prune)
  qed
  from run keys dist' same again show ?thesis by blast
qed

lemma example_needs_rel:
  "needs_rel example_diamond \<subseteq> (measure example_rank)\<inverse>"
  by (auto simp: needs_rel_def example_diamond_def diamond_node_def example_rank_def
      split: if_splits)

theorem minimal_graph_schema_reachable_witness:
  "(\<exists>depth s'.
       (\<forall>k \<ge> depth. minimal_graph_schema k example_diamond = Some (Inr s'))
     \<and> fst ` set (nodes s') = reachable example_diamond
     \<and> distinct (map fst (nodes s'))
     \<and> (\<forall>n \<in> reachable example_diamond. map_of (nodes s') n = map_of (nodes example_diamond) n)
     \<and> (\<forall>k \<ge> depth. minimal_graph_schema k s' = Some (Inr s')))
   \<and> map_option (map_sum id (\<lambda>s'. map fst (nodes s'))) (minimal_graph_schema 3 example_diamond)
       = Some (Inr [''C'', ''A'', ''B'', ''T''])"
proof -
  have dist: "distinct (map fst (nodes example_diamond))"
    by (simp add: example_diamond_def)
  have ex: "\<forall>(n, node) \<in> set (nodes example_diamond).
              \<forall>d \<in> snd ` set (needs node). d \<in> fst ` set (nodes example_diamond)"
    by (simp add: example_diamond_def diamond_node_def)
  have "acyclic ((measure example_rank)\<inverse>)"
    by (simp add: wf_acyclic)
  then have ac: "acyclic {(n, d) \<in> needs_rel example_diamond. n \<in> reachable example_diamond}"
    by (rule acyclic_subset) (use example_needs_rel in auto)
  have run: "map_option (map_sum id (\<lambda>s'. map fst (nodes s'))) (minimal_graph_schema 3 example_diamond)
       = Some (Inr [''C'', ''A'', ''B'', ''T''])"
    by (simp add: minimal_graph_schema_def target_names_def example_diamond_def diamond_node_def
        numeral_3_eq_3)
  from minimal_graph_schema_reachable[OF dist ex ac] run show ?thesis by blast
qed

section \<open>Properties of GraphNode\<close>

lemma load_component_Inr:
  assumes "load_component self kw = (self', Inr u)"
  shows "\<exists>params constructor c.
           constructors (self_component_class self) (self_constructor_name self)
             = Some (params, constructor)
         \<and> constructor (constructor_arguments self kw) = Inr c
         \<and> self' = self\<lparr>trace := trace self @ [Instantiated (constructor_arguments self kw)],
                        self_component := Some c\<rparr>"
  using assms
  by (auto simp: load_component_def Let_def split: option.splits prod.splits if_splits sum.splits)

lemma load_component_called:
  assumes "constructors (self_component_class self) (self_constructor_name self)
             = Some (params, constructor)"
    and "\<not> (\<exists>k \<in> set (map fst (arg_kwargs (constructor_arguments self kw))).
              k \<in> set fixed_arguments)"
  shows "load_component self kw =
           (case constructor (constructor_arguments self kw) of
              Inl e \<Rightarrow>
                (self\<lparr>trace := trace self @ [Instantiated (constructor_arguments self kw)]\<rparr>,
                 Inl (GraphComponentException (initializing_message (self_node_name self)) e))
            | Inr c \<Rightarrow>
                (self\<lparr>trace := trace self @ [Instantiated (constructor_arguments self kw)],
                      self_component := Some c\<rparr>, Inr ()))"
  using assms by (simp add: load_component_def Let_def split: sum.splits)

lemma load_component_clash:
  assumes "constructors (self_component_class self) (self_constructor_name self)
             = Some (params, constructor)"
    and "\<exists>k \<in> set (map fst (arg_kwargs (constructor_arguments self kw))). k \<in> set fixed_arguments"
  shows "load_component self kw =
           (self, Inl (GraphComponentException (initializing_message (self_node_name self))
                         (TypeError ''got multiple values for keyword argument'')))"
  using assms by (simp add: load_component_def Let_def)

lemma load_component_instantiations:
  assumes "load_component self kw = (self', r)"
  shows "instantiations self' = instantiations self +
           (if constructors (self_component_class self) (self_constructor_name self) \<noteq> None
               \<and> \<not> (\<exists>k \<in> set (map fst (arg_kwargs (constructor_arguments self kw))).
                       k \<in> set fixed_arguments)
            then 1 else 0)"
  using assms
  by (auto simp: load_component_def instantiations_def Let_def
      split: option.splits prod.splits if_splits sum.splits)

lemma run_fn_Some:
  assumes "self_component self = Some c" "self_fn self c rk = (c', r)"
  shows "run_fn self rk = (self\<lparr>self_component := Some c', trace := trace self @ [Ran rk]\<rparr>, r)"
  using assms by (simp add: run_fn_def)

lemma run_fn_cases:
  assumes "run_fn self rk = (self', r)"
  shows "(self_component self = None \<and> self' = self \<and> r = Inl (IllTyped ''_component''))
         \<or> (\<exists>c c'. self_component self = Some c \<and> self_fn self c rk = (c', r)
               \<and> self' = self\<lparr>self_component := Some c', trace := trace self @ [Ran rk]\<rparr>)"
  using assms by (auto simp: run_fn_def split: option.splits prod.splits)

lemma run_fn_instantiations:
  assumes "run_fn self rk = (self', r)"
  shows "instantiations self' = instantiations self"
  using run_fn_cases[OF assms] by (auto simp: instantiations_def)

lemma instantiate_if_lazy_eager:
  "self_eager self \<Longrightarrow> instantiate_if_lazy self kwargs = (self, Inr kwargs)"
  by (simp add: instantiate_if_lazy_def)

lemma filter_not_matched:
  "filter (\<lambda>(k, v). k \<notin> set (map fst (minimal_kwargs kwargs params))) kwargs
     = filter (\<lambda>(k, v). k \<notin> set params) kwargs"
  by (rule filter_cong) (force simp: minimal_kwargs_def)+

lemma instantiate_if_lazy_lazy:
  assumes "\<not> self_eager self"
  shows "instantiate_if_lazy self kwargs =
           (case load_component self (minimal_kwargs kwargs (fst (self_constructor_fn self))) of
              (self1, Inl e) \<Rightarrow> (self1, Inl e)
            | (self1, Inr u) \<Rightarrow>
                (self1, Inr (filter (\<lambda>(k, v). k \<notin> set (fst (self_constructor_fn self))) kwargs)))"
  using assms unfolding instantiate_if_lazy_def Let_def filter_not_matched by simp

lemma instantiate_if_lazy_subset:
  assumes "instantiate_if_lazy self kwargs = (self1, Inr rk)"
  shows "set rk \<subseteq> set kwargs \<and> (self_eager self \<longrightarrow> rk = kwargs \<and> self1 = self)"
  using assms
  by (auto simp: instantiate_if_lazy_def Let_def split: if_splits sum.splits prod.splits)

lemma hook_left_fields:
  "self_node_name (hook_left self ec cfg) = self_node_name self"
  "self_component_class (hook_left self ec cfg) = self_component_class self"
  "self_constructor_name (hook_left self ec cfg) = self_constructor_name self"
  "self_constructor_fn (hook_left self ec cfg) = self_constructor_fn self"
  "self_fn_name (hook_left self ec cfg) = self_fn_name self"
  "self_fn (hook_left self ec cfg) = self_fn self"
  "self_inputs (hook_left self ec cfg) = self_inputs self"
  "self_eager (hook_left self ec cfg) = self_eager self"
  "self_model_storage (hook_left self ec cfg) = self_model_storage self"
  "self_existing_resource (hook_left self ec cfg) = self_existing_resource self"
  "self_hooks (hook_left self ec cfg) = self_hooks self"
  "self_component (hook_left self ec cfg) = self_component self"
  "trace (hook_left self ec cfg) = trace self"
  "instantiations (hook_left self ec cfg) = instantiations self"
  by (simp_all add: hook_left_def instantiations_def)

lemma hook_left_twice:
  "hook_left (hook_left self ec cfg) ec' cfg' = hook_left self ec' cfg'"
  by (simp add: hook_left_def)

lemma hook_left_same:
  "hook_left self (self_execution_context self) (self_component_config self) = self"
  by (simp add: hook_left_def)

lemma before_hooks_loop_left:
  "before_hooks_loop self ri hooks outs = (self0, ri', r) \<Longrightarrow>
   \<exists>ec cfg. self0 = hook_left self ec cfg"
proof (induction hooks arbitrary: self ri outs)
  case Nil
  then have "self0 = self" by simp
  with hook_left_same[of self] show ?case by metis
next
  case (Cons hook hooks)
  obtain q r1 where
    b0: "on_before_node hook (self_node_name self) (self_execution_context self)
          (self_component_config self) ri = (q, r1)"
    by (rule prod.exhaust)
  obtain ec cfg ri1 where q: "q = (ec, cfg, ri1)" by (rule prod_cases3)
  note b = b0[unfolded q]
  show ?case
  proof (cases r1)
    case (Inl e)
    with Cons.prems b show ?thesis by auto
  next
    case (Inr out)
    with Cons.prems b
    have "before_hooks_loop (hook_left self ec cfg) ri1 hooks (outs @ [out]) = (self0, ri', r)"
      by simp
    from Cons.IH[OF this] show ?thesis by (auto simp: hook_left_twice)
  qed
qed

lemma after_hooks_loop_left:
  "after_hooks_loop self hs outp = (self3, outp', r) \<Longrightarrow>
   \<exists>ec cfg. self3 = hook_left self ec cfg"
proof (induction hs arbitrary: self outp)
  case Nil
  then have "self3 = self" by simp
  with hook_left_same[of self] show ?case by metis
next
  case (Cons a hs)
  obtain hook hook_data where a: "a = (hook, hook_data)" by (cases a)
  obtain q r1 where
    b0: "on_after_node hook (self_node_name self) (self_execution_context self)
          (self_component_config self) outp hook_data = (q, r1)"
    by (rule prod.exhaust)
  obtain ec cfg outp1 where q: "q = (ec, cfg, outp1)" by (rule prod_cases3)
  note b = b0[unfolded q]
  show ?case
  proof (cases r1)
    case (Inl e)
    with Cons.prems a b show ?thesis by auto
  next
    case (Inr u)
    with Cons.prems a b
    have "after_hooks_loop (hook_left self ec cfg) hs outp1 = (self3, outp', r)"
      by simp
    from Cons.IH[OF this] show ?thesis by (auto simp: hook_left_twice)
  qed
qed

lemma run_before_hooks_left:
  "run_before_hooks self kwargs = (self0, kwargs', r) \<Longrightarrow>
   \<exists>ec cfg. self0 = hook_left self ec cfg"
  unfolding run_before_hooks_def by (rule before_hooks_loop_left)

lemma run_after_hooks_left:
  "run_after_hooks self outs outp = (self3, outp', r) \<Longrightarrow>
   \<exists>ec cfg. self3 = hook_left self ec cfg"
  unfolding run_after_hooks_def by (rule after_hooks_loop_left)

lemma call_outcome_left:
  assumes "call_outcome self outs r = (self', res)"
  shows "\<exists>ec cfg. self' = hook_left self ec cfg"
proof (cases r)
  case (Inl e)
  with assms have "self' = self" by (simp add: call_outcome_def)
  with hook_left_same[of self] show ?thesis by metis
next
  case (Inr outp)
  obtain self3 outp' r3 where a: "run_after_hooks self outs outp = (self3, outp', r3)"
    by (rule prod_cases3)
  with assms Inr have "self' = self3"
    by (cases r3) (simp_all add: call_outcome_def)
  with run_after_hooks_left[OF a] show ?thesis by simp
qed

lemma run_before_hooks_no_hooks:
  "self_hooks self = [] \<Longrightarrow> run_before_hooks self kwargs = (self, kwargs, Inr [])"
  by (simp add: run_before_hooks_def)

lemma call_outcome_no_hooks:
  "self_hooks self = [] \<Longrightarrow>
   call_outcome self outs r =
     (self, case r of
              Inl e \<Rightarrow> Inl (GraphComponentException (running_message (self_node_name self)) e)
            | Inr output \<Rightarrow> Inr (self_node_name self, output))"
  by (simp add: call_outcome_def run_after_hooks_def split: sum.splits)

lemma instantiate_if_lazy_name:
  "instantiate_if_lazy self kwargs = (self1, r) \<Longrightarrow> self_node_name self1 = self_node_name self"
  by (auto simp: instantiate_if_lazy_def load_component_def Let_def
      split: if_splits sum.splits prod.splits option.splits)

text \<open>The call, once the inputs are projected, the before hooks have returned and the
  component is there: the run function is applied to the component and \<open>run_kwargs\<close>.\<close>

lemma call_unfold_outcome:
  assumes "collect_kwargs (self_inputs self) (dict_of inputs) [] = Inr kwargs"
    and "run_before_hooks self kwargs = (self0, kwargs', Inr outs)"
    and "instantiate_if_lazy self0 kwargs' = (self1, Inr rk)"
    and "self_component self1 = Some c"
    and "self_fn self1 c rk = (c', r)"
  shows "call self inputs =
           call_outcome (self1\<lparr>self_component := Some c', trace := trace self1 @ [Ran rk]\<rparr>)
             outs r"
proof -
  from run_before_hooks_left[OF assms(2)] have "self_node_name self0 = self_node_name self"
    by (auto simp: hook_left_fields)
  with instantiate_if_lazy_name[OF assms(3)]
  have n: "self_node_name self1 = self_node_name self" by simp
  show ?thesis
    using assms n
    by (simp add: call_def run_fn_def call_outcome_def split: sum.splits prod.splits)
qed

lemma call_stops_early:
  "collect_kwargs (self_inputs self) (dict_of inputs) [] = Inl e \<Longrightarrow>
     call self inputs = (self, Inl e)"
  "collect_kwargs (self_inputs self) (dict_of inputs) [] = Inr kwargs \<Longrightarrow>
     run_before_hooks self kwargs = (self0, kwargs', Inl e) \<Longrightarrow> call self inputs = (self0, Inl e)"
  "collect_kwargs (self_inputs self) (dict_of inputs) [] = Inr kwargs \<Longrightarrow>
     run_before_hooks self kwargs = (self0, kwargs', Inr outs) \<Longrightarrow>
     instantiate_if_lazy self0 kwargs' = (self1, Inl e) \<Longrightarrow> call self inputs = (self1, Inl e)"
  by (simp_all add: call_def)

lemma call_no_component:
  assumes "collect_kwargs (self_inputs self) (dict_of inputs) [] = Inr kwargs"
    and "run_before_hooks self kwargs = (self0, kwargs', Inr outs)"
    and "instantiate_if_lazy self0 kwargs' = (self1, Inr rk)"
    and "self_component self1 = None"
  shows "fst (call self inputs) = self1"
  using assms by (simp add: call_def run_fn_def)

text \<open>What a call leaves of the node, in the three ways it can go after the projection.\<close>

lemma call_cases:
  assumes "call self inputs = (self', r)"
  shows "(self' = self \<and> (\<exists>e. collect_kwargs (self_inputs self) (dict_of inputs) [] = Inl e))
       \<or> (\<exists>kwargs self0 kwargs' e.
             collect_kwargs (self_inputs self) (dict_of inputs) [] = Inr kwargs
           \<and> run_before_hooks self kwargs = (self0, kwargs', Inl e) \<and> self' = self0)
       \<or> (\<exists>kwargs self0 kwargs' outs self1 r1.
             collect_kwargs (self_inputs self) (dict_of inputs) [] = Inr kwargs
           \<and> run_before_hooks self kwargs = (self0, kwargs', Inr outs)
           \<and> instantiate_if_lazy self0 kwargs' = (self1, r1)
           \<and> (case r1 of
                 Inl e \<Rightarrow> self' = self1
               | Inr rk \<Rightarrow>
                   (case self_component self1 of
                      None \<Rightarrow> self' = self1
                    | Some c \<Rightarrow>
                        (\<exists>c' r' ec cfg.
                           self_fn self1 c rk = (c', r')
                         \<and> self' = hook_left
                                     (self1\<lparr>self_component := Some c',
                                            trace := trace self1 @ [Ran rk]\<rparr>) ec cfg))))"
proof (cases "collect_kwargs (self_inputs self) (dict_of inputs) []")
  case (Inl e)
  with assms call_stops_early(1)[OF Inl] show ?thesis by simp
next
  case (Inr kwargs)
  obtain self0 kwargs' h where h: "run_before_hooks self kwargs = (self0, kwargs', h)"
    by (rule prod_cases3)
  show ?thesis
  proof (cases h)
    case (Inl e)
    with assms call_stops_early(2)[OF Inr h[unfolded Inl]] Inr h show ?thesis by simp
  next
    case outs: (Inr outs)
    note h' = h[unfolded outs]
    obtain self1 r1 where i: "instantiate_if_lazy self0 kwargs' = (self1, r1)"
      by (rule prod.exhaust)
    have "case r1 of
            Inl e \<Rightarrow> self' = self1
          | Inr rk \<Rightarrow>
              (case self_component self1 of
                 None \<Rightarrow> self' = self1
               | Some c \<Rightarrow>
                   (\<exists>c' r' ec cfg.
                      self_fn self1 c rk = (c', r')
                    \<and> self' = hook_left
                                (self1\<lparr>self_component := Some c',
                                       trace := trace self1 @ [Ran rk]\<rparr>) ec cfg))"
    proof (cases r1)
      case (Inl e)
      with assms call_stops_early(3)[OF Inr h' i[unfolded Inl]] show ?thesis by simp
    next
      case rk: (Inr rk)
      note i' = i[unfolded rk]
      show ?thesis
      proof (cases "self_component self1")
        case None
        with call_no_component[OF Inr h' i' None] assms rk show ?thesis by simp
      next
        case (Some c)
        obtain c' r' where f: "self_fn self1 c rk = (c', r')" by (rule prod.exhaust)
        from call_unfold_outcome[OF Inr h' i' Some f] assms
        have "call_outcome (self1\<lparr>self_component := Some c', trace := trace self1 @ [Ran rk]\<rparr>)
                outs r' = (self', r)" by simp
        from call_outcome_left[OF this] f rk Some show ?thesis by auto
      qed
    qed
    with Inr h' i show ?thesis by blast
  qed
qed

lemma call_after_instantiate:
  assumes "collect_kwargs (self_inputs self) (dict_of inputs) [] = Inr kwargs"
    and "run_before_hooks self kwargs = (self0, kwargs', Inr outs)"
    and "instantiate_if_lazy self0 kwargs' = (self1, r1)"
    and "call self inputs = (self', r)"
  shows "instantiations self' = instantiations self1"
  using call_cases[OF assms(4)] assms(1-3)
  by (auto simp: hook_left_fields instantiations_def split: sum.splits option.splits)

lemma call_eager_instantiations:
  assumes "self_eager self" "call self inputs = (self', r)"
  shows "instantiations self' = instantiations self"
proof (cases "collect_kwargs (self_inputs self) (dict_of inputs) []")
  case (Inl e)
  with assms call_stops_early(1)[OF Inl] show ?thesis by simp
next
  case (Inr kwargs)
  obtain self0 kwargs' h where h: "run_before_hooks self kwargs = (self0, kwargs', h)"
    by (rule prod_cases3)
  from run_before_hooks_left[OF h] have s0: "instantiations self0 = instantiations self"
    "self_eager self0" using assms(1) by (auto simp: hook_left_fields)
  show ?thesis
  proof (cases h)
    case (Inl e)
    with assms call_stops_early(2)[OF Inr h[unfolded Inl]] s0 show ?thesis by simp
  next
    case outs: (Inr outs)
    from call_after_instantiate[OF Inr h[unfolded outs] instantiate_if_lazy_eager[OF s0(2)] assms(2)]
      s0
    show ?thesis by simp
  qed
qed

lemma call_lazy_instantiations:
  assumes "\<not> self_eager self" "call self inputs = (self', r)"
  shows "instantiations self' =
           instantiations self + (if reaches_constructor self inputs then 1 else 0)"
proof (cases "collect_kwargs (self_inputs self) (dict_of inputs) []")
  case (Inl e)
  with assms call_stops_early(1)[OF Inl] show ?thesis by (simp add: reaches_constructor_def)
next
  case (Inr kwargs)
  obtain self0 kwargs' h where h: "run_before_hooks self kwargs = (self0, kwargs', h)"
    by (rule prod_cases3)
  from run_before_hooks_left[OF h] have s0: "instantiations self0 = instantiations self"
    "\<not> self_eager self0" using assms(1) by (auto simp: hook_left_fields)
  show ?thesis
  proof (cases h)
    case (Inl e)
    with assms call_stops_early(2)[OF Inr h[unfolded Inl]] Inr h s0 show ?thesis
      by (simp add: reaches_constructor_def)
  next
    case outs: (Inr outs)
    let ?ck = "minimal_kwargs kwargs' (fst (self_constructor_fn self0))"
    obtain self1 r1 where l: "load_component self0 ?ck = (self1, r1)"
      by (rule prod.exhaust)
    obtain r1' where i: "instantiate_if_lazy self0 kwargs' = (self1, r1')"
      using l s0(2) by (cases r1) (simp_all add: instantiate_if_lazy_lazy)
    from call_after_instantiate[OF Inr h[unfolded outs] i assms(2)]
    have "instantiations self' = instantiations self1" .
    with load_component_instantiations[OF l] Inr h outs s0 show ?thesis
      by (auto simp: reaches_constructor_def split: option.splits)
  qed
qed

lemma call_eager_component:
  assumes "self_eager self" "call self inputs = (self', r)"
  shows "(self_component self' = self_component self \<and> trace self' = trace self)
         \<or> (\<exists>c run_kwargs c' r'. self_component self = Some c
               \<and> self_fn self c run_kwargs = (c', r')
               \<and> self_component self' = Some c'
               \<and> trace self' = trace self @ [Ran run_kwargs])"
proof -
  from call_cases[OF assms(2)] consider
    (a) "self' = self"
  | (b) kwargs self0 kwargs' e where "run_before_hooks self kwargs = (self0, kwargs', Inl e)"
      "self' = self0"
  | (c) kwargs self0 kwargs' outs self1 r1 where
      "run_before_hooks self kwargs = (self0, kwargs', Inr outs)"
      "instantiate_if_lazy self0 kwargs' = (self1, r1)"
      "case r1 of
         Inl e \<Rightarrow> self' = self1
       | Inr rk \<Rightarrow>
           (case self_component self1 of
              None \<Rightarrow> self' = self1
            | Some c \<Rightarrow>
                (\<exists>c' r' ec cfg.
                   self_fn self1 c rk = (c', r')
                 \<and> self' = hook_left
                             (self1\<lparr>self_component := Some c',
                                    trace := trace self1 @ [Ran rk]\<rparr>) ec cfg))"
    by blast
  then show ?thesis
  proof cases
    case a
    then show ?thesis by simp
  next
    case b
    from run_before_hooks_left[OF b(1)] b(2) show ?thesis by (auto simp: hook_left_fields)
  next
    case c
    from run_before_hooks_left[OF c(1)] obtain ec0 cfg0 where
      s0: "self0 = hook_left self ec0 cfg0" by blast
    then have "self_eager self0" using assms(1) by (simp add: hook_left_fields)
    from instantiate_if_lazy_eager[OF this, of kwargs'] c(2)
    have s1: "self1 = self0" "r1 = Inr kwargs'" by simp_all
    show ?thesis
    proof (cases "self_component self")
      case None
      with c(3) s1 s0 show ?thesis by (simp add: hook_left_fields)
    next
      case (Some comp)
      with c(3) s1 s0 obtain c' r' ec cfg where
        "self_fn self comp kwargs' = (c', r')"
        "self' = hook_left (self0\<lparr>self_component := Some c',
                                   trace := trace self0 @ [Ran kwargs']\<rparr>) ec cfg"
        by (auto simp: hook_left_fields)
      with Some s0 show ?thesis by (auto simp: hook_left_fields)
    qed
  qed
qed

text \<open>A call of a lazy node that gets as far as the constructor.\<close>

lemma call_lazy_component:
  assumes "\<not> self_eager self" "call self inputs = (self', r)" "reaches_constructor self inputs"
  shows "\<exists>params constructor args.
           constructors (self_component_class self) (self_constructor_name self)
             = Some (params, constructor)
         \<and> (case constructor args of
              Inl e \<Rightarrow>
                r = Inl (GraphComponentException (initializing_message (self_node_name self)) e)
              \<and> self_component self' = self_component self
              \<and> trace self' = trace self @ [Instantiated args]
            | Inr c \<Rightarrow>
                (\<exists>run_kwargs c' r'.
                   self_fn self c run_kwargs = (c', r')
                 \<and> self_component self' = Some c'
                 \<and> trace self' = trace self @ [Instantiated args, Ran run_kwargs]))"
proof -
  from assms(3) obtain kwargs where
    k: "collect_kwargs (self_inputs self) (dict_of inputs) [] = Inr kwargs"
    by (cases "collect_kwargs (self_inputs self) (dict_of inputs) []")
       (simp_all add: reaches_constructor_def)
  obtain self0 kwargs' h0 where h0: "run_before_hooks self kwargs = (self0, kwargs', h0)"
    by (rule prod_cases3)
  from assms(3) k h0 obtain outs where outs: "h0 = Inr outs"
    by (cases h0) (simp_all add: reaches_constructor_def)
  note h = h0[unfolded outs]
  from assms(3) k h obtain pc where
    pc: "constructors (self_component_class self0) (self_constructor_name self0) = Some pc"
    by (cases "constructors (self_component_class self0) (self_constructor_name self0)")
       (simp_all add: reaches_constructor_def)
  obtain params constructor where pc': "pc = (params, constructor)" by (rule prod.exhaust)
  note ctor0 = pc[unfolded pc']
  from assms(3) k h pc
  have nc: "\<not> (\<exists>k \<in> set (map fst (arg_kwargs (constructor_arguments self0
                    (minimal_kwargs kwargs' (fst (self_constructor_fn self0)))))).
               k \<in> set fixed_arguments)"
    by (simp add: reaches_constructor_def)
  from run_before_hooks_left[OF h] obtain ec0 cfg0 where
    s0: "self0 = hook_left self ec0 cfg0" by blast
  then have lazy0: "\<not> self_eager self0" using assms(1) by (simp add: hook_left_fields)
  let ?ck = "minimal_kwargs kwargs' (fst (self_constructor_fn self0))"
  let ?args = "constructor_arguments self0 ?ck"
  let ?rest = "filter (\<lambda>(k, v). k \<notin> set (fst (self_constructor_fn self0))) kwargs'"
  note l = load_component_called[OF ctor0 nc]
  note i = instantiate_if_lazy_lazy[OF lazy0, of kwargs']
  from ctor0 s0 have ctor: "constructors (self_component_class self) (self_constructor_name self)
             = Some (params, constructor)" by (simp add: hook_left_fields)
  show ?thesis
  proof (cases "constructor ?args")
    case (Inl e)
    with l i have "instantiate_if_lazy self0 kwargs' =
            (self0\<lparr>trace := trace self0 @ [Instantiated ?args]\<rparr>,
             Inl (GraphComponentException (initializing_message (self_node_name self0)) e))"
      by simp
    from call_stops_early(3)[OF k h this] assms(2) s0
    have "r = Inl (GraphComponentException (initializing_message (self_node_name self)) e)
          \<and> self_component self' = self_component self
          \<and> trace self' = trace self @ [Instantiated ?args]"
      by (auto simp: hook_left_fields)
    with ctor Inl show ?thesis
      by (intro exI[of _ params] exI[of _ constructor] exI[of _ ?args]) simp
  next
    case (Inr c)
    let ?self1 = "self0\<lparr>trace := trace self0 @ [Instantiated ?args], self_component := Some c\<rparr>"
    from l i Inr have i1: "instantiate_if_lazy self0 kwargs' = (?self1, Inr ?rest)" by simp
    obtain c' r' where f: "self_fn self0 c ?rest = (c', r')" by (rule prod.exhaust)
    have sc: "self_component ?self1 = Some c" by simp
    have sf: "self_fn ?self1 c ?rest = (c', r')" using f by simp
    from call_unfold_outcome[OF k h i1 sc sf] assms(2)
    have "call_outcome (?self1\<lparr>self_component := Some c', trace := trace ?self1 @ [Ran ?rest]\<rparr>)
            outs r' = (self', r)" by simp
    from call_outcome_left[OF this] obtain ec cfg where
      "self' = hook_left (?self1\<lparr>self_component := Some c', trace := trace ?self1 @ [Ran ?rest]\<rparr>)
                 ec cfg" by blast
    with f s0 have "self_fn self c ?rest = (c', r') \<and> self_component self' = Some c'
          \<and> trace self' = trace self @ [Instantiated ?args, Ran ?rest]"
      by (simp add: hook_left_fields)
    with ctor Inr show ?thesis
      by (intro exI[of _ params] exI[of _ constructor] exI[of _ ?args]) auto
  qed
qed

lemma call_lazy_stops:
  assumes "\<not> self_eager self" "call self inputs = (self', r)"
    "\<not> reaches_constructor self inputs"
  shows "self_component self' = self_component self \<and> trace self' = trace self"
proof (cases "collect_kwargs (self_inputs self) (dict_of inputs) []")
  case (Inl e)
  with assms call_stops_early(1)[OF Inl] show ?thesis by simp
next
  case (Inr kwargs)
  obtain self0 kwargs' h where h: "run_before_hooks self kwargs = (self0, kwargs', h)"
    by (rule prod_cases3)
  from run_before_hooks_left[OF h] obtain ec0 cfg0 where
    s0: "self0 = hook_left self ec0 cfg0" by blast
  then have lazy0: "\<not> self_eager self0" using assms(1) by (simp add: hook_left_fields)
  show ?thesis
  proof (cases h)
    case (Inl e)
    with assms call_stops_early(2)[OF Inr h[unfolded Inl]] s0 show ?thesis
      by (auto simp: hook_left_fields)
  next
    case outs: (Inr outs)
    let ?ck = "minimal_kwargs kwargs' (fst (self_constructor_fn self0))"
    from assms(3) Inr h outs
    have "constructors (self_component_class self0) (self_constructor_name self0) = None
          \<or> (\<exists>k \<in> set (map fst (arg_kwargs (constructor_arguments self0 ?ck))).
                k \<in> set fixed_arguments)"
      by (auto simp: reaches_constructor_def split: option.splits)
    then have "\<exists>e. load_component self0 ?ck = (self0, Inl e)"
      by (auto simp: load_component_def Let_def split: option.splits)
    then obtain e where "instantiate_if_lazy self0 kwargs' = (self0, Inl e)"
      using instantiate_if_lazy_lazy[OF lazy0, of kwargs'] by auto
    from call_stops_early(3)[OF Inr h[unfolded outs] this] assms(2) s0 show ?thesis
      by (auto simp: hook_left_fields)
  qed
qed

lemma GraphNode_init_eager:
  assumes "GraphNode_init n cls cn cfg fnn ins True ms res ec hooks = Inr node"
  shows "\<exists>params constructor args c.
           constructors cls cn = Some (params, constructor)
         \<and> constructor args = Inr c
         \<and> self_component node = Some c
         \<and> trace node = [Instantiated args]"
proof -
  from assms obtain self u where
    l: "load_component self [] = (node, Inr u)" and t: "trace self = []"
    and c: "self_component_class self = cls" "self_constructor_name self = cn"
    by (auto simp: GraphNode_init_def Let_def split: option.splits prod.splits sum.splits)
  from load_component_Inr[OF l] t c show ?thesis by auto
qed

lemma GraphNode_init_lazy:
  assumes "GraphNode_init n cls cn cfg fnn ins False ms res ec hooks = Inr node"
  shows "trace node = [] \<and> self_component node = None"
  using assms
  by (auto simp: GraphNode_init_def Let_def split: option.splits)

lemma constructor_arguments_kwargs:
  "arg_kwargs (constructor_arguments self kw) = AList.delete ''resource'' kw"
proof (cases "map_of kw ''resource''")
  case None
  then have "''resource'' \<notin> fst ` set kw" by (simp add: map_of_eq_None_iff)
  with None show ?thesis by (simp add: constructor_arguments_def get_resource_def split: option.splits)
next
  case (Some r)
  then show ?thesis by (simp add: constructor_arguments_def get_resource_def)
qed

lemma constructor_arguments_resource:
  "arg_resource (constructor_arguments self kw) =
     (case map_of kw ''resource'' of
        Some r \<Rightarrow> r
      | None \<Rightarrow>
          (case self_existing_resource self of
             Some r \<Rightarrow> ResourceObj r
           | None \<Rightarrow> ResourceObj \<lparr>name = self_node_name self\<rparr>))"
  by (simp add: constructor_arguments_def get_resource_def split: option.splits)

text \<open>
  C3, as amended. An eager node calls the constructor of its component once, at
  construction: the component it then holds is what the constructor returned. No call
  of an eager node calls the constructor again, and the component the node holds after
  a call is the one it held, as the run function left it. A lazy node has no component
  after construction. A call of it that gets as far as the constructor (every needed
  input there, the before hooks returning, no keyword clashing with a fixed argument)
  calls the constructor once more: if the constructor raises, the call raises and the
  node keeps what it held; if it returns a component, the run function is applied to
  this new component, which replaces the one the node held. A call that stops before
  calls no constructor and leaves the component as it was.
\<close>

theorem graph_node_instantiation:
  "(GraphNode_init n cls cn cfg fnn ins True ms res ec hooks = Inr e0 \<longrightarrow>
      instantiations e0 = 1
      \<and> (\<exists>params constructor args c.
            constructors cls cn = Some (params, constructor) \<and> constructor args = Inr c
          \<and> self_component e0 = Some c \<and> trace e0 = [Instantiated args]))
   \<and> (GraphNode_init n cls cn cfg fnn ins False ms res ec hooks = Inr l0 \<longrightarrow>
      instantiations l0 = 0 \<and> self_component l0 = None)
   \<and> (self_eager e \<and> call e inputs = (e', r) \<longrightarrow>
      instantiations e' = instantiations e
      \<and> ((self_component e' = self_component e \<and> trace e' = trace e)
         \<or> (\<exists>c run_kwargs c' r'.
               self_component e = Some c \<and> self_fn e c run_kwargs = (c', r')
             \<and> self_component e' = Some c' \<and> trace e' = trace e @ [Ran run_kwargs])))
   \<and> (\<not> self_eager l \<and> call l inputs = (l', r2) \<longrightarrow>
      instantiations l' = instantiations l + (if reaches_constructor l inputs then 1 else 0)
      \<and> (if reaches_constructor l inputs
         then (\<exists>params constructor args.
                 constructors (self_component_class l) (self_constructor_name l)
                   = Some (params, constructor)
               \<and> (case constructor args of
                    Inl e \<Rightarrow>
                      r2 = Inl (GraphComponentException
                                  (initializing_message (self_node_name l)) e)
                    \<and> self_component l' = self_component l
                    \<and> trace l' = trace l @ [Instantiated args]
                  | Inr c \<Rightarrow>
                      (\<exists>run_kwargs c' r'.
                         self_fn l c run_kwargs = (c', r')
                       \<and> self_component l' = Some c'
                       \<and> trace l' = trace l @ [Instantiated args, Ran run_kwargs])))
         else self_component l' = self_component l \<and> trace l' = trace l))"
proof (intro conjI impI)
  assume a: "GraphNode_init n cls cn cfg fnn ins True ms res ec hooks = Inr e0"
  from GraphNode_init_eager[OF a]
  show "\<exists>params constructor args c.
            constructors cls cn = Some (params, constructor) \<and> constructor args = Inr c
          \<and> self_component e0 = Some c \<and> trace e0 = [Instantiated args]" .
  then show "instantiations e0 = 1" by (auto simp: instantiations_def)
next
  assume a: "GraphNode_init n cls cn cfg fnn ins False ms res ec hooks = Inr l0"
  from GraphNode_init_lazy[OF a]
  show "instantiations l0 = 0" "self_component l0 = None" by (simp_all add: instantiations_def)
next
  assume a: "self_eager e \<and> call e inputs = (e', r)"
  then show "instantiations e' = instantiations e"
    using call_eager_instantiations by blast
  from a show "(self_component e' = self_component e \<and> trace e' = trace e)
         \<or> (\<exists>c run_kwargs c' r'.
               self_component e = Some c \<and> self_fn e c run_kwargs = (c', r')
             \<and> self_component e' = Some c' \<and> trace e' = trace e @ [Ran run_kwargs])"
    using call_eager_component by blast
next
  assume "\<not> self_eager l \<and> call l inputs = (l', r2)"
  then show "instantiations l' = instantiations l + (if reaches_constructor l inputs then 1 else 0)"
    using call_lazy_instantiations by blast
next
  assume a: "\<not> self_eager l \<and> call l inputs = (l', r2)"
  then have a1: "\<not> self_eager l" and a2: "call l inputs = (l', r2)" by simp_all
  show "if reaches_constructor l inputs
         then (\<exists>params constructor args.
                 constructors (self_component_class l) (self_constructor_name l)
                   = Some (params, constructor)
               \<and> (case constructor args of
                    Inl e \<Rightarrow>
                      r2 = Inl (GraphComponentException
                                  (initializing_message (self_node_name l)) e)
                    \<and> self_component l' = self_component l
                    \<and> trace l' = trace l @ [Instantiated args]
                  | Inr c \<Rightarrow>
                      (\<exists>run_kwargs c' r'.
                         self_fn l c run_kwargs = (c', r')
                       \<and> self_component l' = Some c'
                       \<and> trace l' = trace l @ [Instantiated args, Ran run_kwargs])))
         else self_component l' = self_component l \<and> trace l' = trace l"
  proof (cases "reaches_constructor l inputs")
    case True
    from call_lazy_component[OF a1 a2 True] True show ?thesis by simp
  next
    case False
    from call_lazy_stops[OF a1 a2 False] False show ?thesis by simp
  qed
qed

text \<open>
  C6. Whenever \<open>_load_component\<close> instantiates the component, the constructor of the
  class is applied to arguments whose \<open>resource\<close> is the \<open>resource\<close> input handed to
  \<open>_load_component\<close> if there is one, else the resource configured for the node if
  there is one, else a new resource named after the node; and what the constructor
  returns is the component the node then holds.
\<close>

theorem load_component_resource_precedence:
  assumes "load_component node kwargs = (node', Inr u)"
  shows "\<exists>params constructor args c.
           constructors (self_component_class node) (self_constructor_name node)
             = Some (params, constructor)
         \<and> constructor args = Inr c
         \<and> self_component node' = Some c
         \<and> trace node' = trace node @ [Instantiated args]
         \<and> arg_kwargs args = AList.delete ''resource'' kwargs
         \<and> arg_resource args =
             (case map_of kwargs ''resource'' of
                Some r \<Rightarrow> r
              | None \<Rightarrow>
                  (case self_existing_resource node of
                     Some r \<Rightarrow> ResourceObj r
                   | None \<Rightarrow> ResourceObj \<lparr>name = self_node_name node\<rparr>))"
proof -
  from load_component_Inr[OF assms] obtain params constructor c where
    "constructors (self_component_class node) (self_constructor_name node)
       = Some (params, constructor)"
    "constructor (constructor_arguments node kwargs) = Inr c"
    "node' = node\<lparr>trace := trace node @ [Instantiated (constructor_arguments node kwargs)],
                  self_component := Some c\<rparr>" by blast
  then show ?thesis
    using constructor_arguments_resource[of node kwargs]
      constructor_arguments_kwargs[of node kwargs]
    by (intro exI[of _ params] exI[of _ constructor]
        exI[of _ "constructor_arguments node kwargs"] exI[of _ c]) simp
qed

text \<open>
  C7. When a call gets as far as the run function (the inputs are there, the before
  hooks return, a lazy node's component is loaded) and the run function raises \<open>e\<close>,
  the call raises \<open>GraphComponentException\<close> with a message that names the node and
  with \<open>e\<close> itself as cause.
\<close>

theorem call_wraps_run_exception:
  assumes "collect_kwargs (self_inputs node) (dict_of inputs) [] = Inr kwargs"
    and "run_before_hooks node kwargs = (node0, kwargs', Inr hook_outputs)"
    and "instantiate_if_lazy node0 kwargs' = (node1, Inr run_kwargs)"
    and "self_component node1 = Some component"
    and "self_fn node1 component run_kwargs = (component', Inl e)"
  shows "snd (call node inputs) =
           Inl (GraphComponentException
                  (''Error running graph component for node '' @ self_node_name node @ ''.'') e)"
  using assms by (simp add: call_def run_fn_def running_message_def)

lemma map_of_foldl_update:
  "map_of (foldl (\<lambda>d (k, v). AList.update k v d) acc xs) = map_of acc ++ map_of (rev xs)"
proof (induction xs arbitrary: acc)
  case Nil
  then show ?case by simp
next
  case (Cons x xs)
  obtain k v where x: "x = (k, v)" by (cases x)
  show ?case
    by (simp add: x Cons.IH update_conv' map_add_upd_left[symmetric] del: map_add_upd_left)
       (simp add: map_add_def fun_eq_iff split: option.splits)
qed

lemma map_of_dict_of: "map_of (dict_of xs) = map_of (rev xs)"
  by (simp add: dict_of_def map_of_foldl_update)

lemma collect_kwargs_Inr:
  "distinct (map fst ins) \<Longrightarrow> fst ` set acc \<inter> fst ` set ins = {} \<Longrightarrow>
   collect_kwargs ins recv acc = Inr kw \<Longrightarrow>
   \<exists>new. kw = acc @ new \<and>
     list_all2 (\<lambda>(input_name, input_node) (k, v). k = input_name \<and> map_of recv input_node = Some v)
       ins new"
proof (induction ins arbitrary: acc)
  case Nil
  then show ?case by simp
next
  case (Cons x ins)
  obtain n p where x: "x = (n, p)" by (cases x)
  from Cons.prems(3) x obtain v where v: "map_of recv p = Some v"
    and c: "collect_kwargs ins recv (AList.update n v acc) = Inr kw"
    by (auto split: option.splits)
  have fresh: "n \<notin> fst ` set acc" using Cons.prems(2) x by auto
  have d: "distinct (map fst ins)" using Cons.prems(1) by simp
  have disj: "fst ` set (acc @ [(n, v)]) \<inter> fst ` set ins = {}"
    using Cons.prems(1,2) x by auto
  from Cons.IH[OF d disj c[unfolded update_fresh[OF fresh]]] obtain new where
    "kw = (acc @ [(n, v)]) @ new"
    "list_all2 (\<lambda>(input_name, input_node) (k, v). k = input_name \<and> map_of recv input_node = Some v)
       ins new" by blast
  then have "kw = acc @ ((n, v) # new) \<and>
    list_all2 (\<lambda>(input_name, input_node) (k, v). k = input_name \<and> map_of recv input_node = Some v)
       (x # ins) ((n, v) # new)"
    using v x by simp
  then show ?case by blast
qed

lemma collect_kwargs_missing:
  "\<exists>p \<in> snd ` set ins. map_of recv p = None \<Longrightarrow>
   \<exists>p \<in> snd ` set ins. map_of recv p = None \<and> collect_kwargs ins recv acc = Inl (KeyError p)"
proof (induction ins arbitrary: acc)
  case Nil
  then show ?case by simp
next
  case (Cons x ins)
  obtain n p where x: "x = (n, p)" by (cases x)
  show ?case
  proof (cases "map_of recv p")
    case None
    then show ?thesis using x by auto
  next
    case (Some v)
    with Cons.prems x have "\<exists>p \<in> snd ` set ins. map_of recv p = None" by auto
    from Cons.IH[OF this, of "AList.update n v acc"] Some x show ?thesis by auto
  qed
qed

lemma collect_kwargs_present:
  "\<not> (\<exists>p \<in> snd ` set ins. map_of recv p = None) \<Longrightarrow> \<exists>kw. collect_kwargs ins recv acc = Inr kw"
proof (induction ins arbitrary: acc)
  case Nil
  then show ?case by simp
next
  case (Cons x ins)
  obtain n p where x: "x = (n, p)" by (cases x)
  from Cons.prems x obtain v where v: "map_of recv p = Some v" by auto
  from Cons.prems have "\<not> (\<exists>p \<in> snd ` set ins. map_of recv p = None)" by auto
  from Cons.IH[OF this, of "AList.update n v acc"] v x show ?case by simp
qed

text \<open>
  C4, as amended. Take a call whose inputs are all there and whose before hooks return,
  leaving the keyword arguments \<open>kwargs'\<close> and the node \<open>node0\<close>. A lazy node splits
  \<open>kwargs'\<close> by the names of the constructor's parameters. If a matched input other than
  \<open>resource\<close> has the name of a fixed constructor argument, the call raises the wrapped
  \<open>TypeError\<close> and calls neither constructor nor run function. Otherwise the
  constructor is applied to the matched inputs (one named \<open>resource\<close> as the argument
  \<open>resource\<close>, the others as further keyword arguments); if it raises, the call raises;
  if it returns a component, the run function is applied to that component and
  exactly the unmatched inputs, and the call ends with what this returns or raises.
  An eager node applies the run function to the component it holds and all of
  \<open>kwargs'\<close>.
\<close>

theorem call_splits_inputs:
  assumes c: "collect_kwargs (self_inputs node) (dict_of inputs) [] = Inr kwargs"
    and h: "run_before_hooks node kwargs = (node0, kwargs', Inr hook_outputs)"
  shows "(\<not> self_eager node
          \<and> constructors (self_component_class node) (self_constructor_name node)
              = Some (params, constructor) \<longrightarrow>
          (let matched = filter (\<lambda>(k, v). k \<in> set (fst (self_constructor_fn node))) kwargs';
               rest = filter (\<lambda>(k, v). k \<notin> set (fst (self_constructor_fn node))) kwargs';
               args = constructor_arguments node0 matched
           in arg_kwargs args = AList.delete ''resource'' matched
            \<and> (\<forall>r. map_of matched ''resource'' = Some r \<longrightarrow> arg_resource args = r)
            \<and> (if \<exists>k \<in> set (map fst (arg_kwargs args)). k \<in> set fixed_arguments
               then call node inputs =
                      (node0,
                       Inl (GraphComponentException (initializing_message (self_node_name node))
                              (TypeError ''got multiple values for keyword argument'')))
               else (case constructor args of
                       Inl e \<Rightarrow>
                         call node inputs =
                           (node0\<lparr>trace := trace node @ [Instantiated args]\<rparr>,
                            Inl (GraphComponentException
                                   (initializing_message (self_node_name node)) e))
                     | Inr component \<Rightarrow>
                         (case self_fn node component rest of
                            (component', r) \<Rightarrow>
                              call node inputs =
                                call_outcome
                                  (node0\<lparr>self_component := Some component',
                                         trace := trace node @ [Instantiated args, Ran rest]\<rparr>)
                                  hook_outputs r)))))
       \<and> (self_eager node \<and> self_component node = Some held \<longrightarrow>
           (case self_fn node held kwargs' of
              (component', r) \<Rightarrow>
                call node inputs =
                  call_outcome
                    (node0\<lparr>self_component := Some component',
                           trace := trace node @ [Ran kwargs']\<rparr>)
                    hook_outputs r))"
proof (intro conjI impI)
  from run_before_hooks_left[OF h] obtain ec0 cfg0 where
    s0: "node0 = hook_left node ec0 cfg0" by blast
  assume a: "\<not> self_eager node
          \<and> constructors (self_component_class node) (self_constructor_name node)
              = Some (params, constructor)"
  with s0 have lazy: "\<not> self_eager node0"
    and ctor: "constructors (self_component_class node0) (self_constructor_name node0)
              = Some (params, constructor)" by (simp_all add: hook_left_fields)
  have f0: "self_constructor_fn node0 = self_constructor_fn node" "trace node0 = trace node"
    "self_node_name node0 = self_node_name node" "self_fn node0 = self_fn node"
    using s0 by (simp_all add: hook_left_fields)
  let ?matched = "filter (\<lambda>(k, v). k \<in> set (fst (self_constructor_fn node))) kwargs'"
  let ?rest = "filter (\<lambda>(k, v). k \<notin> set (fst (self_constructor_fn node))) kwargs'"
  let ?args = "constructor_arguments node0 ?matched"
  have m: "minimal_kwargs kwargs' (fst (self_constructor_fn node)) = ?matched"
    by (simp add: minimal_kwargs_def)
  have i: "instantiate_if_lazy node0 kwargs' =
             (case load_component node0 ?matched of
                (self1, Inl e) \<Rightarrow> (self1, Inl e)
              | (self1, Inr u) \<Rightarrow> (self1, Inr ?rest))"
    by (rule instantiate_if_lazy_lazy[OF lazy, of kwargs', unfolded f0(1) m])
  have 1: "arg_kwargs ?args = AList.delete ''resource'' ?matched"
    by (rule constructor_arguments_kwargs)
  have 2: "\<forall>r. map_of ?matched ''resource'' = Some r \<longrightarrow> arg_resource ?args = r"
    by (simp add: constructor_arguments_resource)
  have 3: "if \<exists>k \<in> set (map fst (arg_kwargs ?args)). k \<in> set fixed_arguments
           then call node inputs =
                  (node0,
                   Inl (GraphComponentException (initializing_message (self_node_name node))
                          (TypeError ''got multiple values for keyword argument'')))
           else (case constructor ?args of
                   Inl e \<Rightarrow>
                     call node inputs =
                       (node0\<lparr>trace := trace node @ [Instantiated ?args]\<rparr>,
                        Inl (GraphComponentException
                               (initializing_message (self_node_name node)) e))
                 | Inr component \<Rightarrow>
                     (case self_fn node component ?rest of
                        (component', r) \<Rightarrow>
                          call node inputs =
                            call_outcome
                              (node0\<lparr>self_component := Some component',
                                     trace := trace node @ [Instantiated ?args, Ran ?rest]\<rparr>)
                              hook_outputs r))"
  proof (cases "\<exists>k \<in> set (map fst (arg_kwargs ?args)). k \<in> set fixed_arguments")
    case True
    from load_component_clash[OF ctor True] i
    have "instantiate_if_lazy node0 kwargs' =
            (node0, Inl (GraphComponentException (initializing_message (self_node_name node))
                          (TypeError ''got multiple values for keyword argument'')))"
      by (simp add: f0)
    from call_stops_early(3)[OF c h this] True show ?thesis by simp
  next
    case False
    note l = load_component_called[OF ctor False]
    show ?thesis
    proof (cases "constructor ?args")
      case (Inl e)
      with l i have "instantiate_if_lazy node0 kwargs' =
            (node0\<lparr>trace := trace node @ [Instantiated ?args]\<rparr>,
             Inl (GraphComponentException (initializing_message (self_node_name node)) e))"
        by (simp add: f0)
      from call_stops_early(3)[OF c h this] False Inl show ?thesis by simp
    next
      case (Inr component)
      let ?node1 = "node0\<lparr>trace := trace node @ [Instantiated ?args],
                          self_component := Some component\<rparr>"
      from l i Inr have i1: "instantiate_if_lazy node0 kwargs' = (?node1, Inr ?rest)"
        by (simp add: f0)
      obtain component' r where f: "self_fn node component ?rest = (component', r)"
        by (rule prod.exhaust)
      have "call node inputs =
              call_outcome
                 (?node1\<lparr>self_component := Some component', trace := trace ?node1 @ [Ran ?rest]\<rparr>)
                 hook_outputs r"
      proof -
        have sc: "self_component ?node1 = Some component" by simp
        have sf: "self_fn ?node1 component ?rest = (component', r)" using f by (simp add: f0)
        show ?thesis by (rule call_unfold_outcome[OF c h i1 sc sf])
      qed
      with False Inr f show ?thesis by simp
    qed
  qed
  from 1 2 3 show "let matched = ?matched; rest = ?rest; args = constructor_arguments node0 matched
           in arg_kwargs args = AList.delete ''resource'' matched
            \<and> (\<forall>r. map_of matched ''resource'' = Some r \<longrightarrow> arg_resource args = r)
            \<and> (if \<exists>k \<in> set (map fst (arg_kwargs args)). k \<in> set fixed_arguments
               then call node inputs =
                      (node0,
                       Inl (GraphComponentException (initializing_message (self_node_name node))
                              (TypeError ''got multiple values for keyword argument'')))
               else (case constructor args of
                       Inl e \<Rightarrow>
                         call node inputs =
                           (node0\<lparr>trace := trace node @ [Instantiated args]\<rparr>,
                            Inl (GraphComponentException
                                   (initializing_message (self_node_name node)) e))
                     | Inr component \<Rightarrow>
                         (case self_fn node component rest of
                            (component', r) \<Rightarrow>
                              call node inputs =
                                call_outcome
                                  (node0\<lparr>self_component := Some component',
                                         trace := trace node @ [Instantiated args, Ran rest]\<rparr>)
                                  hook_outputs r)))"
    unfolding Let_def by blast
next
  from run_before_hooks_left[OF h] obtain ec0 cfg0 where
    s0: "node0 = hook_left node ec0 cfg0" by blast
  assume a: "self_eager node \<and> self_component node = Some held"
  obtain component' r where f: "self_fn node held kwargs' = (component', r)"
    by (rule prod.exhaust)
  from a s0 have "self_eager node0" by (simp add: hook_left_fields)
  then have i: "instantiate_if_lazy node0 kwargs' = (node0, Inr kwargs')"
    by (simp add: instantiate_if_lazy_eager)
  have sc: "self_component node0 = Some held" using a s0 by (simp add: hook_left_fields)
  have sf: "self_fn node0 held kwargs' = (component', r)" using f s0 by (simp add: hook_left_fields)
  have t: "trace node0 = trace node" using s0 by (simp add: hook_left_fields)
  from call_unfold_outcome[OF c h i sc sf] f t
  show "case self_fn node held kwargs' of
              (component', r) \<Rightarrow>
                call node inputs =
                  call_outcome
                    (node0\<lparr>self_component := Some component',
                           trace := trace node @ [Ran kwargs']\<rparr>)
                    hook_outputs r"
    by simp
qed

text \<open>
  C5, as amended. The keyword arguments of a call are built from \<open>needs\<close> by name: one
  per entry \<open>input_name -> input_node\<close>, under the keyword \<open>input_name\<close>, with the output
  received from \<open>input_node\<close> (the last one, if the node occurs twice among the pairs).
  When a parent named in \<open>needs\<close> is missing from the received pairs, the call raises
  \<open>KeyError\<close> for it and leaves the node as it was; otherwise the projection succeeds.
  The before hooks get this dict; without hooks it and the node stay as they are. The
  run function is applied to the node's component and keyword arguments taken from
  the dict as the hooks leave it (all of it for an eager node), and the call ends
  with what the run function returns or raises; without hooks, the value returned is
  the one the run function returned.
\<close>

theorem call_projects_inputs_by_name:
  assumes "distinct (map fst (self_inputs node))"
  shows "((\<exists>p \<in> snd ` set (self_inputs node). map_of (rev inputs) p = None) \<longrightarrow>
            (\<exists>p \<in> snd ` set (self_inputs node).
               map_of (rev inputs) p = None \<and> call node inputs = (node, Inl (KeyError p))))
       \<and> (\<not> (\<exists>p \<in> snd ` set (self_inputs node). map_of (rev inputs) p = None) \<longrightarrow>
            (\<exists>kwargs. collect_kwargs (self_inputs node) (dict_of inputs) [] = Inr kwargs))
       \<and> (collect_kwargs (self_inputs node) (dict_of inputs) [] = Inr kwargs \<longrightarrow>
            list_all2 (\<lambda>(input_name, input_node) (k, v).
                         k = input_name \<and> map_of (rev inputs) input_node = Some v)
              (self_inputs node) kwargs
          \<and> (self_hooks node = [] \<longrightarrow> run_before_hooks node kwargs = (node, kwargs, Inr []))
          \<and> (run_before_hooks node kwargs = (node0, kwargs', Inr hook_outputs)
               \<and> instantiate_if_lazy node0 kwargs' = (node1, Inr run_kwargs)
               \<and> self_component node1 = Some component
               \<and> self_fn node1 component run_kwargs = (component', r) \<longrightarrow>
                 set run_kwargs \<subseteq> set kwargs'
               \<and> (self_eager node \<longrightarrow> run_kwargs = kwargs')
               \<and> (let node' = node1\<lparr>self_component := Some component',
                                      trace := trace node1 @ [Ran run_kwargs]\<rparr>
                  in call node inputs = call_outcome node' hook_outputs r
                   \<and> (self_hooks node = [] \<longrightarrow>
                        call node inputs =
                          (node',
                           case r of
                             Inl e \<Rightarrow>
                               Inl (GraphComponentException
                                      (running_message (self_node_name node)) e)
                           | Inr v \<Rightarrow> Inr (self_node_name node, v))))))"
proof (intro conjI impI)
  assume "\<exists>p \<in> snd ` set (self_inputs node). map_of (rev inputs) p = None"
  then have "\<exists>p \<in> snd ` set (self_inputs node). map_of (dict_of inputs) p = None"
    by (simp add: map_of_dict_of)
  from collect_kwargs_missing[OF this, of "[]"] obtain p where
    "p \<in> snd ` set (self_inputs node)" "map_of (dict_of inputs) p = None"
    "collect_kwargs (self_inputs node) (dict_of inputs) [] = Inl (KeyError p)" by blast
  then show "\<exists>p \<in> snd ` set (self_inputs node).
               map_of (rev inputs) p = None \<and> call node inputs = (node, Inl (KeyError p))"
    using call_stops_early(1) by (auto simp: map_of_dict_of)
next
  assume "\<not> (\<exists>p \<in> snd ` set (self_inputs node). map_of (rev inputs) p = None)"
  then have "\<not> (\<exists>p \<in> snd ` set (self_inputs node). map_of (dict_of inputs) p = None)"
    by (simp add: map_of_dict_of)
  then show "\<exists>kwargs. collect_kwargs (self_inputs node) (dict_of inputs) [] = Inr kwargs"
    by (rule collect_kwargs_present)
next
  assume k: "collect_kwargs (self_inputs node) (dict_of inputs) [] = Inr kwargs"
  from collect_kwargs_Inr[OF assms _ k]
  show "list_all2 (\<lambda>(input_name, input_node) (k, v).
                     k = input_name \<and> map_of (rev inputs) input_node = Some v)
          (self_inputs node) kwargs"
    by (auto simp: map_of_dict_of)
next
  assume "self_hooks node = []"
  then show "run_before_hooks node kwargs = (node, kwargs, Inr [])"
    by (rule run_before_hooks_no_hooks)
next
  assume a: "run_before_hooks node kwargs = (node0, kwargs', Inr hook_outputs)
               \<and> instantiate_if_lazy node0 kwargs' = (node1, Inr run_kwargs)
               \<and> self_component node1 = Some component
               \<and> self_fn node1 component run_kwargs = (component', r)"
  then have i: "instantiate_if_lazy node0 kwargs' = (node1, Inr run_kwargs)" by simp
  from instantiate_if_lazy_subset[OF i]
  show "set run_kwargs \<subseteq> set kwargs'" by simp
next
  assume a: "run_before_hooks node kwargs = (node0, kwargs', Inr hook_outputs)
               \<and> instantiate_if_lazy node0 kwargs' = (node1, Inr run_kwargs)
               \<and> self_component node1 = Some component
               \<and> self_fn node1 component run_kwargs = (component', r)"
    and e: "self_eager node"
  then have h: "run_before_hooks node kwargs = (node0, kwargs', Inr hook_outputs)"
    and i: "instantiate_if_lazy node0 kwargs' = (node1, Inr run_kwargs)" by simp_all
  from run_before_hooks_left[OF h] e have "self_eager node0" by (auto simp: hook_left_fields)
  with instantiate_if_lazy_subset[OF i]
  show "run_kwargs = kwargs'" by simp
next
  assume k: "collect_kwargs (self_inputs node) (dict_of inputs) [] = Inr kwargs"
    and a: "run_before_hooks node kwargs = (node0, kwargs', Inr hook_outputs)
               \<and> instantiate_if_lazy node0 kwargs' = (node1, Inr run_kwargs)
               \<and> self_component node1 = Some component
               \<and> self_fn node1 component run_kwargs = (component', r)"
  then have h: "run_before_hooks node kwargs = (node0, kwargs', Inr hook_outputs)"
    and i: "instantiate_if_lazy node0 kwargs' = (node1, Inr run_kwargs)"
    and sc: "self_component node1 = Some component"
    and sf: "self_fn node1 component run_kwargs = (component', r)" by simp_all
  let ?node' = "node1\<lparr>self_component := Some component', trace := trace node1 @ [Ran run_kwargs]\<rparr>"
  note u = call_unfold_outcome[OF k h i sc sf]
  from run_before_hooks_left[OF h] obtain ec0 cfg0 where
    s0: "node0 = hook_left node ec0 cfg0" by blast
  have hk: "self_hooks node1 = self_hooks node" "self_node_name node1 = self_node_name node"
    using i s0
    by (auto simp: instantiate_if_lazy_def load_component_def Let_def hook_left_fields
        split: if_splits sum.splits prod.splits option.splits)
  have "self_hooks node = [] \<longrightarrow>
          call node inputs =
            (?node',
             case r of
               Inl e \<Rightarrow> Inl (GraphComponentException (running_message (self_node_name node)) e)
             | Inr v \<Rightarrow> Inr (self_node_name node, v))"
  proof
    assume "self_hooks node = []"
    with hk have "self_hooks ?node' = []" by simp
    from call_outcome_no_hooks[OF this, of hook_outputs r] u hk show
      "call node inputs =
            (?node',
             case r of
               Inl e \<Rightarrow> Inl (GraphComponentException (running_message (self_node_name node)) e)
             | Inr v \<Rightarrow> Inr (self_node_name node, v))" by (cases r) simp_all
  qed
  with u show "let node' = ?node'
        in call node inputs = call_outcome node' hook_outputs r
         \<and> (self_hooks node = [] \<longrightarrow>
              call node inputs =
                (node',
                 case r of
                   Inl e \<Rightarrow>
                     Inl (GraphComponentException (running_message (self_node_name node)) e)
                 | Inr v \<Rightarrow> Inr (self_node_name node, v)))"
    by (simp add: Let_def)
qed

lemma example_component_simps:
  "constructors example_component ''create'' = Some (fixed_arguments, example_create)"
  "constructors example_component ''load'' = Some (fixed_arguments @ [''kwargs''], example_load)"
  "methods example_component ''run'' = Some example_run"
  "methods example_component ''fail'' = Some example_fail"
  "get_default_config example_component = [(''k'', JInt 0)]"
  by (simp_all add: example_component_def)

lemmas call_defs =
  call_def dict_of_def run_before_hooks_def instantiate_if_lazy_def minimal_kwargs_def
  fixed_arguments_def load_component_def constructor_arguments_def get_resource_def
  run_fn_def run_after_hooks_def hook_left_def Let_def

lemma example_minimal_kwargs:
  "minimal_kwargs [(''x'', v)] fixed_arguments = []"
  "minimal_kwargs [(''x'', v)] (fixed_arguments @ [''kwargs'']) = []"
  "minimal_kwargs [(''config'', v)] fixed_arguments = [(''config'', v)]"
  "minimal_kwargs [(''x'', v), (''resource'', w)] (fixed_arguments @ [''kwargs'']) =
     [(''resource'', w)]"
  by (simp_all add: minimal_kwargs_def fixed_arguments_def)

lemmas lazy_call_defs =
  call_def dict_of_def run_before_hooks_def instantiate_if_lazy_def example_minimal_kwargs
  load_component_def constructor_arguments_def get_resource_def
  run_fn_def run_after_hooks_def hook_left_def Let_def

lemma example_lazy_init:
  "example_node ''create'' ''run'' [(''x'', ''parent'')] False None = Inr example_lazy"
  by (simp add: example_node_def GraphNode_init_def example_component_simps example_lazy_def
      merge_dicts_def dict_of_def)

lemma example_eager_init:
  "example_node ''create'' ''run'' [(''x'', ''parent'')] True None = Inr example_eager"
  by (simp add: example_node_def GraphNode_init_def example_component_simps example_lazy_def
      example_eager_def example_args_def example_create_def merge_dicts_def call_defs)

lemma example_lazy_call:
  "call example_lazy example_inputs = (example_lazy_called, Inr (''child'', Json (JInt 5)))"
  by (simp add: lazy_call_defs example_component_simps example_lazy_def example_args_def
      example_create_def example_run_def example_inputs_def example_lazy_called_def)

lemma example_lazy_called_call:
  "call example_lazy_called example_inputs =
     (example_lazy_called
        \<lparr>self_component := Some (ResourceObj \<lparr>name = ''child''\<rparr>, 1),
         trace := trace example_lazy_called @
                  [Instantiated (example_args (ResourceObj \<lparr>name = ''child''\<rparr>) []),
                   Ran [(''x'', Json (JInt 5))]]\<rparr>,
      Inr (''child'', Json (JInt 5)))"
  by (simp add: lazy_call_defs example_component_simps example_lazy_def example_args_def
      example_create_def example_run_def example_inputs_def example_lazy_called_def)

lemma example_lazy_call_missing:
  "call example_lazy [] = (example_lazy, Inl (KeyError ''parent''))"
  by (simp add: call_defs example_lazy_def)

lemma example_eager_call:
  "call example_eager example_inputs =
     (example_eager
        \<lparr>self_component := Some (ResourceObj \<lparr>name = ''child''\<rparr>, 1),
         trace := trace example_eager @ [Ran [(''x'', Json (JInt 5))]]\<rparr>,
      Inr (''child'', Json (JInt 5)))"
  by (simp add: call_defs example_component_simps example_lazy_def example_eager_def
      example_args_def example_run_def example_inputs_def)

lemma example_loader_call:
  "call example_loader example_training_inputs =
     (example_loader
        \<lparr>self_component := Some (ResourceObj \<lparr>name = ''runtime''\<rparr>, 1),
         trace := [Instantiated (example_args (ResourceObj \<lparr>name = ''runtime''\<rparr>) []),
                   Ran [(''x'', Json (JInt 5))]]\<rparr>,
      Inr (''child'', Json (JInt 5)))"
  by (simp add: lazy_call_defs example_component_simps example_lazy_def example_loader_def
      example_args_def example_load_def example_run_def example_training_inputs_def)

lemma example_clash_call:
  "call example_clash example_inputs =
     (example_clash,
      Inl (GraphComponentException ''Error initializing graph component for node child.''
             (TypeError ''got multiple values for keyword argument'')))"
  by (simp add: call_defs example_component_simps example_lazy_def example_clash_def
      example_inputs_def initializing_message_def)

lemma example_hooked_call:
  "call example_hooked example_inputs =
     (example_hooked
        \<lparr>self_component := Some (ResourceObj \<lparr>name = ''child''\<rparr>, 1),
         trace := trace example_hooked @ [Ran [(''x'', Json (JInt 99))]]\<rparr>,
      Inr (''child'', Json (JInt 99)))"
  by (simp add: call_defs example_lazy_def example_eager_def example_hooked_def example_hook_def
      example_args_def example_run_def example_inputs_def)

lemma example_failing_call:
  "snd (call example_failing example_inputs) =
     Inl (GraphComponentException ''Error running graph component for node child.''
            (ValueError ''boom''))"
  by (simp add: call_defs example_lazy_def example_eager_def example_failing_def
      example_fail_def example_inputs_def running_message_def)

lemma example_loader_load_runtime:
  "load_component example_loader [(''resource'', ResourceObj \<lparr>name = ''runtime''\<rparr>)] =
     (example_loader
        \<lparr>self_component := Some (ResourceObj \<lparr>name = ''runtime''\<rparr>, 0),
         trace := [Instantiated (example_args (ResourceObj \<lparr>name = ''runtime''\<rparr>) [])]\<rparr>,
      Inr ())"
  by (simp add: call_defs example_component_simps example_lazy_def example_loader_def
      example_args_def example_load_def)

lemma example_loader_load_static:
  "load_component example_loader [] =
     (example_loader
        \<lparr>self_component := Some (ResourceObj \<lparr>name = ''static''\<rparr>, 0),
         trace := [Instantiated (example_args (ResourceObj \<lparr>name = ''static''\<rparr>) [])]\<rparr>,
      Inr ())"
  by (simp add: call_defs example_component_simps example_lazy_def example_loader_def
      example_args_def example_load_def)

lemma example_lazy_load_fresh:
  "load_component example_lazy [] =
     (example_lazy
        \<lparr>self_component := Some (ResourceObj \<lparr>name = ''child''\<rparr>, 0),
         trace := [Instantiated (example_args (ResourceObj \<lparr>name = ''child''\<rparr>) [])]\<rparr>,
      Inr ())"
  by (simp add: call_defs example_component_simps example_lazy_def
      example_args_def example_create_def)

lemma example_reaches:
  "reaches_constructor example_lazy example_inputs"
  "\<not> reaches_constructor example_lazy []"
  "reaches_constructor example_lazy_called example_inputs"
  by (simp_all add: reaches_constructor_def call_defs example_component_simps example_lazy_def
      example_lazy_called_def example_inputs_def)

lemma example_fields:
  "self_eager example_eager" "\<not> self_eager example_lazy" "\<not> self_eager example_loader"
  "self_inputs example_eager = [(''x'', ''parent'')]"
  "self_hooks example_eager = []" "self_hooks example_loader = []"
  "self_node_name example_eager = ''child''" "self_node_name example_loader = ''child''"
  "self_component example_eager = Some (ResourceObj \<lparr>name = ''child''\<rparr>, 0)"
  "self_fn example_eager = example_run" "self_fn example_loader = example_run"
  "trace example_loader = []"
  "fst (self_constructor_fn example_loader) = fixed_arguments @ [''kwargs'']"
  "constructors (self_component_class example_loader) (self_constructor_name example_loader)
     = Some (fixed_arguments @ [''kwargs''], example_load)"
  by (simp_all add: example_eager_def example_lazy_def example_loader_def
      example_component_simps)

lemma example_collect:
  "collect_kwargs (self_inputs example_eager) (dict_of example_inputs) []
     = Inr [(''x'', Json (JInt 5))]"
  "collect_kwargs (self_inputs example_failing) (dict_of example_inputs) []
     = Inr [(''x'', Json (JInt 5))]"
  "collect_kwargs (self_inputs example_hooked) (dict_of example_inputs) []
     = Inr [(''x'', Json (JInt 5))]"
  "collect_kwargs (self_inputs example_clash) (dict_of example_inputs) []
     = Inr [(''config'', Json (JInt 5))]"
  "collect_kwargs (self_inputs example_loader) (dict_of example_training_inputs) []
     = Inr [(''x'', Json (JInt 5)), (''resource'', ResourceObj \<lparr>name = ''runtime''\<rparr>)]"
  by (simp_all add: example_eager_def example_lazy_def example_failing_def example_hooked_def
      example_clash_def example_loader_def dict_of_def example_inputs_def
      example_training_inputs_def)

lemma example_run_x:
  "example_run (c, n) [(''x'', v)] = ((c, Suc n), Inr v)"
  by (simp add: example_run_def)

theorem graph_node_instantiation_witness:
  "instantiations example_eager = 1
   \<and> self_component example_eager = Some (ResourceObj \<lparr>name = ''child''\<rparr>, 0)
   \<and> instantiations example_lazy = 0 \<and> self_component example_lazy = None
   \<and> instantiations (fst (call example_eager example_inputs)) = 1
   \<and> self_component (fst (call example_eager example_inputs))
       = Some (ResourceObj \<lparr>name = ''child''\<rparr>, 1)
   \<and> reaches_constructor example_lazy example_inputs
   \<and> instantiations (fst (call example_lazy example_inputs)) = 1
   \<and> \<not> reaches_constructor example_lazy []
   \<and> instantiations (fst (call example_lazy [])) = 0
   \<and> self_component (fst (call example_lazy [])) = None"
proof -
  have e0: "GraphNode_init ''child'' example_component ''create'' [(''k'', JInt 1)] ''run''
              [(''x'', ''parent'')] True () None example_context None = Inr example_eager"
    using example_eager_init by (simp add: example_node_def)
  have l0: "GraphNode_init ''child'' example_component ''create'' [(''k'', JInt 1)] ''run''
              [(''x'', ''parent'')] False () None example_context None = Inr example_lazy"
    using example_lazy_init by (simp add: example_node_def)
  have ec: "call example_eager example_inputs
              = (fst (call example_eager example_inputs), snd (call example_eager example_inputs))"
    and lc: "call example_lazy example_inputs
              = (fst (call example_lazy example_inputs), snd (call example_lazy example_inputs))"
    and lm: "call example_lazy [] = (fst (call example_lazy []), snd (call example_lazy []))"
    by simp_all
  from graph_node_instantiation[where ?e0.0 = example_eager and ?l0.0 = example_lazy
      and e = example_eager and e' = "fst (call example_eager example_inputs)"
      and r = "snd (call example_eager example_inputs)" and inputs = example_inputs
      and l = example_lazy and l' = "fst (call example_lazy example_inputs)"
      and ?r2.0 = "snd (call example_lazy example_inputs)"
      and n = "''child''" and cls = example_component and cn = "''create''"
      and cfg = "[(''k'', JInt 1)]" and fnn = "''run''" and ins = "[(''x'', ''parent'')]"
      and ms = "()" and res = None and ec = example_context and hooks = None]
    e0 l0 ec lc example_fields(1,2) example_reaches(1)
  have a: "instantiations example_eager = 1 \<and> instantiations example_lazy = 0
    \<and> self_component example_lazy = None
    \<and> instantiations (fst (call example_eager example_inputs)) = instantiations example_eager
    \<and> instantiations (fst (call example_lazy example_inputs)) = instantiations example_lazy + 1"
    by simp
  from graph_node_instantiation[where l = example_lazy and inputs = "[]"
      and l' = "fst (call example_lazy [])" and ?r2.0 = "snd (call example_lazy [])",
      THEN conjunct2, THEN conjunct2, THEN conjunct2]
    lm example_fields(2) example_reaches(2)
  have b: "instantiations (fst (call example_lazy [])) = instantiations example_lazy
    \<and> self_component (fst (call example_lazy [])) = self_component example_lazy"
    by simp
  show ?thesis
    using a b by (simp add: example_reaches example_fields example_eager_call)
qed

text \<open>
  C3, as stated, fails for a lazy node: two calls of the same node instantiate its
  component twice. The component held after the second call is a new one that has run
  once, not the one of the first call having run twice.
\<close>

theorem lazy_node_instantiates_on_every_call:
  "example_node ''create'' ''run'' [(''x'', ''parent'')] False None = Inr example_lazy
   \<and> instantiations example_lazy = 0
   \<and> call example_lazy example_inputs = (example_lazy_called, Inr (''child'', Json (JInt 5)))
   \<and> instantiations example_lazy_called = 1
   \<and> self_component example_lazy_called = Some (ResourceObj \<lparr>name = ''child''\<rparr>, 1)
   \<and> snd (call example_lazy_called example_inputs) = Inr (''child'', Json (JInt 5))
   \<and> instantiations (fst (call example_lazy_called example_inputs)) = 2
   \<and> self_component (fst (call example_lazy_called example_inputs))
       = Some (ResourceObj \<lparr>name = ''child''\<rparr>, 1)"
proof -
  have a: "instantiations example_lazy = 0"
    by (simp add: instantiations_def example_lazy_def)
  have b: "instantiations example_lazy_called = 1"
    by (simp add: instantiations_def example_lazy_called_def)
  have "trace (fst (call example_lazy_called example_inputs)) =
          trace example_lazy_called @
            [Instantiated (example_args (ResourceObj \<lparr>name = ''child''\<rparr>) []),
             Ran [(''x'', Json (JInt 5))]]"
    by (simp add: example_lazy_called_call)
  then have c: "instantiations (fst (call example_lazy_called example_inputs)) = 2"
    by (simp add: instantiations_def example_lazy_called_def)
  have d: "self_component example_lazy_called = Some (ResourceObj \<lparr>name = ''child''\<rparr>, 1)"
    by (simp add: example_lazy_called_def)
  show ?thesis
    using a b c d by (simp add: example_lazy_init example_lazy_call example_lazy_called_call)
qed

theorem load_component_resource_precedence_witness:
  "self_existing_resource example_loader = Some \<lparr>name = ''static''\<rparr>
   \<and> example_load (example_args (ResourceObj \<lparr>name = ''runtime''\<rparr>) [])
       = Inr (ResourceObj \<lparr>name = ''runtime''\<rparr>, 0)
   \<and> load_component example_loader [(''resource'', ResourceObj \<lparr>name = ''runtime''\<rparr>)] =
       (example_loader
          \<lparr>self_component := Some (ResourceObj \<lparr>name = ''runtime''\<rparr>, 0),
           trace := [Instantiated (example_args (ResourceObj \<lparr>name = ''runtime''\<rparr>) [])]\<rparr>,
        Inr ())
   \<and> (\<exists>constructor args.
         constructors (self_component_class example_loader) ''load''
           = Some (fixed_arguments @ [''kwargs''], constructor)
       \<and> constructor args = Inr (ResourceObj \<lparr>name = ''static''\<rparr>, 0)
       \<and> self_component (fst (load_component example_loader []))
           = Some (ResourceObj \<lparr>name = ''static''\<rparr>, 0)
       \<and> arg_resource args = ResourceObj \<lparr>name = ''static''\<rparr>)
   \<and> self_existing_resource example_lazy = None
   \<and> self_node_name example_lazy = ''child''
   \<and> (\<exists>constructor args.
         constructors (self_component_class example_lazy) ''create''
           = Some (fixed_arguments, constructor)
       \<and> constructor args = Inr (ResourceObj \<lparr>name = ''child''\<rparr>, 0)
       \<and> self_component (fst (load_component example_lazy []))
           = Some (ResourceObj \<lparr>name = ''child''\<rparr>, 0)
       \<and> arg_resource args = ResourceObj \<lparr>name = ''child''\<rparr>)"
proof -
  have s: "self_existing_resource example_loader = Some \<lparr>name = ''static''\<rparr>"
    "self_existing_resource example_lazy = None" "self_node_name example_lazy = ''child''"
    "self_component_class example_loader = example_component"
    "self_constructor_name example_loader = ''load''"
    "self_component_class example_lazy = example_component"
    "self_constructor_name example_lazy = ''create''"
    by (simp_all add: example_loader_def example_lazy_def)
  have l: "example_load (example_args (ResourceObj \<lparr>name = ''runtime''\<rparr>) [])
       = Inr (ResourceObj \<lparr>name = ''runtime''\<rparr>, 0)"
    by (simp add: example_load_def example_args_def)
  from load_component_resource_precedence[OF example_loader_load_static] s
  have 1: "\<exists>constructor args.
         constructors (self_component_class example_loader) ''load''
           = Some (fixed_arguments @ [''kwargs''], constructor)
       \<and> constructor args = Inr (ResourceObj \<lparr>name = ''static''\<rparr>, 0)
       \<and> self_component (fst (load_component example_loader []))
           = Some (ResourceObj \<lparr>name = ''static''\<rparr>, 0)
       \<and> arg_resource args = ResourceObj \<lparr>name = ''static''\<rparr>"
    by (auto simp: example_component_simps example_loader_load_static)
  from load_component_resource_precedence[OF example_lazy_load_fresh] s
  have 2: "\<exists>constructor args.
         constructors (self_component_class example_lazy) ''create''
           = Some (fixed_arguments, constructor)
       \<and> constructor args = Inr (ResourceObj \<lparr>name = ''child''\<rparr>, 0)
       \<and> self_component (fst (load_component example_lazy []))
           = Some (ResourceObj \<lparr>name = ''child''\<rparr>, 0)
       \<and> arg_resource args = ResourceObj \<lparr>name = ''child''\<rparr>"
    by (auto simp: example_component_simps example_lazy_load_fresh)
  show ?thesis
    using 1 2 s l by (simp add: example_loader_load_runtime)
qed

theorem call_wraps_run_exception_witness:
  "self_fn example_failing (ResourceObj \<lparr>name = ''child''\<rparr>, 0) [(''x'', Json (JInt 5))]
     = ((ResourceObj \<lparr>name = ''child''\<rparr>, 0), Inl (ValueError ''boom''))
   \<and> snd (call example_failing example_inputs) =
       Inl (GraphComponentException ''Error running graph component for node child.''
              (ValueError ''boom''))"
proof -
  have h: "run_before_hooks example_failing [(''x'', Json (JInt 5))]
             = (example_failing, [(''x'', Json (JInt 5))], Inr [])"
    by (simp add: run_before_hooks_def example_failing_def example_eager_def example_lazy_def)
  have i: "instantiate_if_lazy example_failing [(''x'', Json (JInt 5))]
             = (example_failing, Inr [(''x'', Json (JInt 5))])"
    by (simp add: instantiate_if_lazy_def example_failing_def example_eager_def example_lazy_def)
  have m: "self_component example_failing = Some (ResourceObj \<lparr>name = ''child''\<rparr>, 0)"
    by (simp add: example_failing_def example_eager_def example_lazy_def)
  have f: "self_fn example_failing (ResourceObj \<lparr>name = ''child''\<rparr>, 0) [(''x'', Json (JInt 5))]
             = ((ResourceObj \<lparr>name = ''child''\<rparr>, 0), Inl (ValueError ''boom''))"
    by (simp add: example_failing_def example_eager_def example_lazy_def example_fail_def)
  have n: "self_node_name example_failing = ''child''"
    by (simp add: example_failing_def example_eager_def example_lazy_def)
  from call_wraps_run_exception[OF example_collect(2) h i m f] f n show ?thesis by simp
qed

theorem call_splits_inputs_witness:
  "example_load (example_args (ResourceObj \<lparr>name = ''runtime''\<rparr>) [])
     = Inr (ResourceObj \<lparr>name = ''runtime''\<rparr>, 0)
   \<and> example_run (ResourceObj \<lparr>name = ''runtime''\<rparr>, 0) [(''x'', Json (JInt 5))]
     = ((ResourceObj \<lparr>name = ''runtime''\<rparr>, 1), Inr (Json (JInt 5)))
   \<and> call example_loader example_training_inputs =
     (example_loader
        \<lparr>self_component := Some (ResourceObj \<lparr>name = ''runtime''\<rparr>, 1),
         trace := [Instantiated (example_args (ResourceObj \<lparr>name = ''runtime''\<rparr>) []),
                   Ran [(''x'', Json (JInt 5))]]\<rparr>,
      Inr (''child'', Json (JInt 5)))
   \<and> example_run (ResourceObj \<lparr>name = ''child''\<rparr>, 0) [(''x'', Json (JInt 5))]
     = ((ResourceObj \<lparr>name = ''child''\<rparr>, 1), Inr (Json (JInt 5)))
   \<and> call example_eager example_inputs =
     (example_eager
        \<lparr>self_component := Some (ResourceObj \<lparr>name = ''child''\<rparr>, 1),
         trace := trace example_eager @ [Ran [(''x'', Json (JInt 5))]]\<rparr>,
      Inr (''child'', Json (JInt 5)))"
proof -
  let ?R = "ResourceObj \<lparr>name = ''runtime''\<rparr>"
  have h: "run_before_hooks example_loader [(''x'', Json (JInt 5)), (''resource'', ?R)]
             = (example_loader, [(''x'', Json (JInt 5)), (''resource'', ?R)], Inr [])"
    "run_before_hooks example_eager [(''x'', Json (JInt 5))]
             = (example_eager, [(''x'', Json (JInt 5))], Inr [])"
    by (simp_all add: run_before_hooks_no_hooks example_fields)
  have m: "filter (\<lambda>(k, v). k \<in> set (fst (self_constructor_fn example_loader)))
             [(''x'', Json (JInt 5)), (''resource'', ?R)] = [(''resource'', ?R)]"
    "filter (\<lambda>(k, v). k \<notin> set (fst (self_constructor_fn example_loader)))
             [(''x'', Json (JInt 5)), (''resource'', ?R)] = [(''x'', Json (JInt 5))]"
    by (simp_all add: example_fields fixed_arguments_def)
  have a: "constructor_arguments example_loader [(''resource'', ?R)] = example_args ?R []"
    by (simp add: constructor_arguments_def get_resource_def example_args_def example_loader_def
        example_lazy_def)
  have k: "arg_kwargs (example_args ?R []) = []"
    by (simp add: example_args_def)
  have l: "example_load (example_args ?R []) = Inr (?R, 0)"
    by (simp add: example_load_def example_args_def)
  have o: "call_outcome (example_loader\<lparr>self_component := Some c, trace := t\<rparr>) [] (Inr v)
             = (example_loader\<lparr>self_component := Some c, trace := t\<rparr>, Inr (''child'', v))"
    "call_outcome (example_eager\<lparr>self_component := Some c, trace := t\<rparr>) [] (Inr v)
             = (example_eager\<lparr>self_component := Some c, trace := t\<rparr>, Inr (''child'', v))"
    for c t v
    by (simp_all add: call_outcome_no_hooks example_fields)
  from call_splits_inputs[OF example_collect(5) h(1),
      where params = "fixed_arguments @ [''kwargs'']" and constructor = example_load,
      THEN conjunct1, unfolded Let_def m a]
    example_fields(3,14)
  have 1: "call example_loader example_training_inputs =
     (example_loader
        \<lparr>self_component := Some (?R, 1),
         trace := [Instantiated (example_args ?R []), Ran [(''x'', Json (JInt 5))]]\<rparr>,
      Inr (''child'', Json (JInt 5)))"
    by (simp add: example_fields(8,11,12) k l o example_run_x)
  from call_splits_inputs[OF example_collect(1) h(2),
      where held = "(ResourceObj \<lparr>name = ''child''\<rparr>, 0)"]
    example_fields(1,9)
  have 2: "call example_eager example_inputs =
     (example_eager
        \<lparr>self_component := Some (ResourceObj \<lparr>name = ''child''\<rparr>, 1),
         trace := trace example_eager @ [Ran [(''x'', Json (JInt 5))]]\<rparr>,
      Inr (''child'', Json (JInt 5)))"
    by (simp add: example_fields o example_run_x)
  have r: "example_run (?R, 0) [(''x'', Json (JInt 5))] = ((?R, 1), Inr (Json (JInt 5)))"
    "example_run (ResourceObj \<lparr>name = ''child''\<rparr>, 0) [(''x'', Json (JInt 5))]
       = ((ResourceObj \<lparr>name = ''child''\<rparr>, 1), Inr (Json (JInt 5)))"
    by (simp_all add: example_run_x)
  from l r(1) 1 r(2) 2 show ?thesis by - (intro conjI, assumption+)
qed

text \<open>
  C4, as stated, fails for a lazy node with an input named like one of the arguments
  every constructor is passed: the input \<open>config\<close> is in the matched subset, but the
  constructor is not called with it; the call of the constructor raises \<open>TypeError\<close>
  before the constructor is entered, and the run function is not called.
\<close>

theorem lazy_node_input_named_config:
  "\<not> self_eager example_clash
   \<and> self_inputs example_clash = [(''config'', ''parent'')]
   \<and> self_constructor_fn example_clash = (fixed_arguments, example_create)
   \<and> collect_kwargs (self_inputs example_clash) (dict_of example_inputs) []
       = Inr [(''config'', Json (JInt 5))]
   \<and> minimal_kwargs [(''config'', Json (JInt 5))] (fst (self_constructor_fn example_clash))
       = [(''config'', Json (JInt 5))]
   \<and> trace example_clash = []
   \<and> call example_clash example_inputs =
       (example_clash,
        Inl (GraphComponentException ''Error initializing graph component for node child.''
               (TypeError ''got multiple values for keyword argument'')))"
proof -
  have a: "\<not> self_eager example_clash" "self_inputs example_clash = [(''config'', ''parent'')]"
    "self_constructor_fn example_clash = (fixed_arguments, example_create)"
    "trace example_clash = []"
    by (simp_all add: example_clash_def example_lazy_def)
  have m: "minimal_kwargs [(''config'', Json (JInt 5))] (fst (self_constructor_fn example_clash))
       = [(''config'', Json (JInt 5))]"
    by (simp add: a example_minimal_kwargs)
  from a(1,2,3) example_collect(4) m a(4) example_clash_call
  show ?thesis by - (intro conjI, assumption+)
qed

theorem call_projects_inputs_by_name_witness:
  "distinct (map fst (self_inputs example_eager))
   \<and> self_inputs example_eager = [(''x'', ''parent'')]
   \<and> collect_kwargs (self_inputs example_eager) (dict_of example_inputs) []
       = Inr [(''x'', Json (JInt 5))]
   \<and> self_hooks example_eager = []
   \<and> self_fn example_eager (ResourceObj \<lparr>name = ''child''\<rparr>, 0) [(''x'', Json (JInt 5))]
       = ((ResourceObj \<lparr>name = ''child''\<rparr>, 1), Inr (Json (JInt 5)))
   \<and> call example_eager example_inputs =
       (example_eager
          \<lparr>self_component := Some (ResourceObj \<lparr>name = ''child''\<rparr>, 1),
           trace := trace example_eager @ [Ran [(''x'', Json (JInt 5))]]\<rparr>,
        Inr (''child'', Json (JInt 5)))
   \<and> call example_eager [(''other'', Json (JInt 5))] = (example_eager, Inl (KeyError ''parent''))"
proof -
  have d: "distinct (map fst (self_inputs example_eager))"
    by (simp add: example_fields)
  have h: "run_before_hooks example_eager [(''x'', Json (JInt 5))]
             = (example_eager, [(''x'', Json (JInt 5))], Inr [])"
    by (simp add: run_before_hooks_no_hooks example_fields)
  have i: "instantiate_if_lazy example_eager [(''x'', Json (JInt 5))]
             = (example_eager, Inr [(''x'', Json (JInt 5))])"
    by (simp add: instantiate_if_lazy_eager example_fields)
  have f: "self_fn example_eager (ResourceObj \<lparr>name = ''child''\<rparr>, 0) [(''x'', Json (JInt 5))]
       = ((ResourceObj \<lparr>name = ''child''\<rparr>, 1), Inr (Json (JInt 5)))"
    by (simp add: example_fields example_run_x)
  have o: "call_outcome (example_eager\<lparr>self_component := Some c, trace := t\<rparr>) [] (Inr v)
             = (example_eager\<lparr>self_component := Some c, trace := t\<rparr>, Inr (''child'', v))"
    for c t v
    by (simp add: call_outcome_no_hooks example_fields)
  from call_projects_inputs_by_name[OF d, where inputs = example_inputs
      and kwargs = "[(''x'', Json (JInt 5))]" and kwargs' = "[(''x'', Json (JInt 5))]"
      and hook_outputs = "[]" and ?node0.0 = example_eager and ?node1.0 = example_eager
      and run_kwargs = "[(''x'', Json (JInt 5))]"
      and component = "(ResourceObj \<lparr>name = ''child''\<rparr>, 0)"
      and component' = "(ResourceObj \<lparr>name = ''child''\<rparr>, 1)"
      and r = "Inr (Json (JInt 5))"]
    example_collect(1) h i f example_fields(9)
  have 1: "call example_eager example_inputs =
       (example_eager
          \<lparr>self_component := Some (ResourceObj \<lparr>name = ''child''\<rparr>, 1),
           trace := trace example_eager @ [Ran [(''x'', Json (JInt 5))]]\<rparr>,
        Inr (''child'', Json (JInt 5)))"
    by (simp add: o Let_def)
  have "\<exists>p \<in> snd ` set (self_inputs example_eager).
          map_of (rev [(''other'', Json (JInt 5))]) p = None"
    by (simp add: example_fields)
  with call_projects_inputs_by_name[OF d, of "[(''other'', Json (JInt 5))]"]
  have 2: "call example_eager [(''other'', Json (JInt 5))] = (example_eager, Inl (KeyError ''parent''))"
    by (auto simp: example_fields)
  from d example_fields(4) example_collect(1) example_fields(5) f 1 2
  show ?thesis by - (intro conjI, assumption+)
qed

text \<open>
  C5, as stated, fails for a node with a hook: the before hooks get the dict of keyword
  arguments itself, and what they write into it is what the run function receives.
  Here \<open>needs\<close> is \<open>x -> parent\<close> and the parent produced 5, but the function receives
  \<open>x = 99\<close>.
\<close>

theorem before_hook_changes_projected_input:
  "self_inputs example_hooked = [(''x'', ''parent'')]
   \<and> example_inputs = [(''parent'', Json (JInt 5))]
   \<and> collect_kwargs (self_inputs example_hooked) (dict_of example_inputs) []
       = Inr [(''x'', Json (JInt 5))]
   \<and> run_before_hooks example_hooked [(''x'', Json (JInt 5))]
       = (example_hooked, [(''x'', Json (JInt 99))], Inr [[]])
   \<and> self_fn example_hooked (ResourceObj \<lparr>name = ''child''\<rparr>, 0) [(''x'', Json (JInt 99))]
       = ((ResourceObj \<lparr>name = ''child''\<rparr>, 1), Inr (Json (JInt 99)))
   \<and> call example_hooked example_inputs =
       (example_hooked
          \<lparr>self_component := Some (ResourceObj \<lparr>name = ''child''\<rparr>, 1),
           trace := trace example_hooked @ [Ran [(''x'', Json (JInt 99))]]\<rparr>,
        Inr (''child'', Json (JInt 99)))"
proof -
  have a: "self_inputs example_hooked = [(''x'', ''parent'')]"
    "self_fn example_hooked = example_run"
    by (simp_all add: example_hooked_def example_eager_def example_lazy_def)
  have h: "run_before_hooks example_hooked [(''x'', Json (JInt 5))]
       = (example_hooked, [(''x'', Json (JInt 99))], Inr [[]])"
    by (simp add: run_before_hooks_def hook_left_def example_hooked_def example_eager_def
        example_lazy_def example_hook_def)
  have f: "self_fn example_hooked (ResourceObj \<lparr>name = ''child''\<rparr>, 0)
             [(''x'', Json (JInt 99))]
       = ((ResourceObj \<lparr>name = ''child''\<rparr>, 1), Inr (Json (JInt 99)))"
    by (simp add: a example_run_x)
  from a(1) example_inputs_def example_collect(3) h f example_hooked_call
  show ?thesis by - (intro conjI, assumption+)
qed


end
